theory Spec2Isabelle
  imports Main "HOL-Library.Sublist"
begin

section \<open>The GraphQL document, as loader.ts reads it\<close>

text \<open>
  Modelled from the spec: the types \<open>DocumentNode\<close>, \<open>DefinitionNode\<close> and
  \<open>SelectionSetNode\<close> that loader.ts imports are declared in the graphql library, not in
  the repository. Section 3 of the specification gives the shape used here, which is
  also all that loader.ts reads of a document: a document holds definitions, a
  definition is told apart by its \<open>kind\<close>, operations and fragments hold a selection
  set, and a selection is a field (whose selection set may be missing), a fragment
  spread or an inline fragment. Every node may carry a source location (\<open>loc\<close>, with
  its start and end offsets).
\<close>

datatype Location = Location nat nat

datatype SelectionNode =
    Field "Location option" string "SelectionSetNode option"
  | FragmentSpread "Location option" string
  | InlineFragment "Location option" SelectionSetNode
and SelectionSetNode =
    SelectionSet "Location option" "SelectionNode list"

text \<open>
  \<open>OtherDefinition\<close> stands for every definition whose \<open>kind\<close> is neither
  \<open>OperationDefinition\<close> nor \<open>FragmentDefinition\<close> (loader.ts tests for both, so it
  expects others); it carries its kind.
\<close>

datatype DefinitionNode =
    OperationDefinition "Location option" "string option" SelectionSetNode
  | FragmentDefinition "Location option" string string SelectionSetNode
  | OtherDefinition "Location option" string

record DocumentNode =
  loc :: "Location option"
  definitions :: "DefinitionNode list"

text \<open>\<open>def.kind === "FragmentDefinition"\<close>, and \<open>def.name.value\<close> of a fragment.\<close>

fun isFragmentDefinition :: "DefinitionNode \<Rightarrow> bool" where
  "isFragmentDefinition (FragmentDefinition l n t s) = True"
| "isFragmentDefinition (OperationDefinition l n s) = False"
| "isFragmentDefinition (OtherDefinition l k) = False"

fun fragmentName :: "DefinitionNode \<Rightarrow> string option" where
  "fragmentName (FragmentDefinition l n t s) = Some n"
| "fragmentName (OperationDefinition l n s) = None"
| "fragmentName (OtherDefinition l k) = None"

section \<open>removeDuplicateFragments\<close>

text \<open>
  loader.ts, lines 101 to 116. The functions of loader.ts that change their document in
  place return the changed document here. The filter callback of \<open>removeDuplicateFragments\<close>, with the set \<open>usedName\<close> it
  updates passed along the list: a definition that is not a fragment is kept; a fragment
  is dropped when its name is in the set, and otherwise kept and its name added.
\<close>

fun dedupFilter :: "string set \<Rightarrow> DefinitionNode list \<Rightarrow> DefinitionNode list" where
  "dedupFilter usedName [] = []"
| "dedupFilter usedName (FragmentDefinition l name t s # defs) =
     (if name \<in> usedName then dedupFilter usedName defs
      else FragmentDefinition l name t s # dedupFilter (insert name usedName) defs)"
| "dedupFilter usedName (def # defs) = def # dedupFilter usedName defs"

definition removeDuplicateFragments :: "DocumentNode \<Rightarrow> DocumentNode" where
  "removeDuplicateFragments document =
     document\<lparr>definitions := dedupFilter {} (definitions document)\<rparr>"

section \<open>removeUnusedFragments\<close>

text \<open>
  loader.ts, lines 133 to 168. \<open>traverse\<close> adds the name of every fragment spread of a selection set to the set
  \<open>usedFragments\<close>; a selection that is not a spread is descended into when it has a
  selection set. \<open>findFragmentSpreads\<close> runs it over the operations and fragments of
  the document, in order.
\<close>

fun traverse :: "SelectionSetNode \<Rightarrow> string set \<Rightarrow> string set"
and traverseSelections :: "SelectionNode list \<Rightarrow> string set \<Rightarrow> string set"
and traverseSelection :: "SelectionNode \<Rightarrow> string set \<Rightarrow> string set" where
  "traverse (SelectionSet l selections) usedFragments =
     traverseSelections selections usedFragments"
| "traverseSelections [] usedFragments = usedFragments"
| "traverseSelections (selection # rest) usedFragments =
     traverseSelections rest (traverseSelection selection usedFragments)"
| "traverseSelection (FragmentSpread l name) usedFragments = insert name usedFragments"
| "traverseSelection (Field l name None) usedFragments = usedFragments"
| "traverseSelection (Field l name (Some selectionSet)) usedFragments =
     traverse selectionSet usedFragments"
| "traverseSelection (InlineFragment l selectionSet) usedFragments =
     traverse selectionSet usedFragments"

fun findFragmentSpreads :: "DefinitionNode list \<Rightarrow> string set \<Rightarrow> string set" where
  "findFragmentSpreads [] usedFragments = usedFragments"
| "findFragmentSpreads (OperationDefinition l n s # defs) usedFragments =
     findFragmentSpreads defs (traverse s usedFragments)"
| "findFragmentSpreads (FragmentDefinition l n t s # defs) usedFragments =
     findFragmentSpreads defs (traverse s usedFragments)"
| "findFragmentSpreads (OtherDefinition l k # defs) usedFragments =
     findFragmentSpreads defs usedFragments"

text \<open>The filter predicate of the sweep: keep what is not a fragment, and used fragments.\<close>

fun keepDefinition :: "string set \<Rightarrow> DefinitionNode \<Rightarrow> bool" where
  "keepDefinition usedFragments (FragmentDefinition l n t s) = (n \<in> usedFragments)"
| "keepDefinition usedFragments def = True"

definition sweep :: "DefinitionNode list \<Rightarrow> DefinitionNode list" where
  "sweep defs = filter (keepDefinition (findFragmentSpreads defs {})) defs"

lemma length_sweep_less:
  "length defs \<noteq> length (sweep defs) \<Longrightarrow> length (sweep defs) < length defs"
  unfolding sweep_def
  using length_filter_le [of "keepDefinition (findFragmentSpreads defs {})" defs]
  by linarith

text \<open>
  One pass marks and sweeps; when the pass removed a definition the function runs again
  on the smaller document. The definition count decreases with every further pass.
\<close>

function removeUnusedFragments :: "DocumentNode \<Rightarrow> DocumentNode" where
  "removeUnusedFragments document =
     (let defCount = length (definitions document);
          document' = document\<lparr>definitions := sweep (definitions document)\<rparr>
      in if defCount \<noteq> length (definitions document')
         then removeUnusedFragments document'
         else document')"
  by pat_completeness auto
termination
  by (relation "measure (\<lambda>document. length (definitions document))")
     (auto dest: length_sweep_less)

declare removeUnusedFragments.simps [simp del]

section \<open>JavaScript values and errors\<close>

text \<open>
  Every error of loader.ts is a JavaScript \<open>Error\<close> with a message; the errors of the
  host's ports and of the libraries are values of the same kind. \<open>TypeError\<close> is the
  error of reading a property of \<open>null\<close> or \<open>undefined\<close> (its message is the
  engine's and is not modelled).
\<close>

datatype error = Error string | TypeError

text \<open>
  \<open>removeSourceLocations\<close> does not look at node kinds: it walks whatever object it is
  given. So it is modelled on JavaScript values: an object is the list of its own
  enumerable properties in key order, an array the list of its elements. Numbers are
  integers here (the walk only tests them for truthiness).
\<close>

datatype JSValue =
    JUndefined
  | JNull
  | JBoolean bool
  | JNumber int
  | JString string
  | JArray "JSValue list"
  | JObject "(string \<times> JSValue) list"

fun truthy :: "JSValue \<Rightarrow> bool" where
  "truthy JUndefined = False"
| "truthy JNull = False"
| "truthy (JBoolean b) = b"
| "truthy (JNumber n) = (n \<noteq> 0)"
| "truthy (JString s) = (s \<noteq> [])"
| "truthy (JArray xs) = True"
| "truthy (JObject ps) = True"

definition getProperty :: "(string \<times> JSValue) list \<Rightarrow> string \<Rightarrow> JSValue" where
  "getProperty ps key = (case map_of ps key of None \<Rightarrow> JUndefined | Some v \<Rightarrow> v)"

definition deleteProperty :: "string \<Rightarrow> (string \<times> JSValue) list \<Rightarrow> (string \<times> JSValue) list" where
  "deleteProperty key ps = filter (\<lambda>p. fst p \<noteq> key) ps"

definition deleteLoc :: "(string \<times> JSValue) list \<Rightarrow> (string \<times> JSValue) list" where
  "deleteLoc ps = (if truthy (getProperty ps ''loc'') then deleteProperty ''loc'' ps else ps)"

section \<open>removeSourceLocations\<close>

lemma size_list_filter_le: "size_list f (filter P xs) \<le> size_list f xs"
  by (induction xs) auto

lemma size_deleteLoc:
  "size_list f (deleteLoc ps) \<le> size_list f ps"
  by (simp add: deleteLoc_def deleteProperty_def size_list_filter_le)

text \<open>
  loader.ts, lines 118 to 131. \<open>removeSourceLocations\<close> deletes the property \<open>loc\<close> when its value is truthy and
  then runs the loop over \<open>Object.keys\<close>: \<open>visitKeys\<close> for an object, \<open>visitIndices\<close>
  for an array (whose keys are its indices), and nothing for the other values (the keys
  of a string are its indices, and their values are strings). \<open>visitValue\<close> is the
  body of the loop: the elements of an array are passed to \<open>removeSourceLocations\<close>
  one by one (\<open>forEachElement\<close>), an object is passed to it, and every other value
  is skipped. Reading \<open>loc\<close> of \<open>null\<close> or \<open>undefined\<close> throws.
\<close>

function removeSourceLocations :: "JSValue \<Rightarrow> error + JSValue"
and visitKeys :: "(string \<times> JSValue) list \<Rightarrow> error + (string \<times> JSValue) list"
and visitIndices :: "JSValue list \<Rightarrow> error + JSValue list"
and visitValue :: "JSValue \<Rightarrow> error + JSValue"
and forEachElement :: "JSValue list \<Rightarrow> error + JSValue list" where
  "removeSourceLocations JUndefined = Inl TypeError"
| "removeSourceLocations JNull = Inl TypeError"
| "removeSourceLocations (JBoolean b) = Inr (JBoolean b)"
| "removeSourceLocations (JNumber n) = Inr (JNumber n)"
| "removeSourceLocations (JString s) = Inr (JString s)"
| "removeSourceLocations (JArray xs) =
     (case visitIndices xs of Inl e \<Rightarrow> Inl e | Inr ys \<Rightarrow> Inr (JArray ys))"
| "removeSourceLocations (JObject ps) =
     (case visitKeys (deleteLoc ps) of Inl e \<Rightarrow> Inl e | Inr qs \<Rightarrow> Inr (JObject qs))"
| "visitKeys [] = Inr []"
| "visitKeys ((key, v) # ps) =
     (case visitValue v of
        Inl e \<Rightarrow> Inl e
      | Inr v' \<Rightarrow> (case visitKeys ps of Inl e \<Rightarrow> Inl e | Inr qs \<Rightarrow> Inr ((key, v') # qs)))"
| "visitIndices [] = Inr []"
| "visitIndices (v # xs) =
     (case visitValue v of
        Inl e \<Rightarrow> Inl e
      | Inr v' \<Rightarrow> (case visitIndices xs of Inl e \<Rightarrow> Inl e | Inr ys \<Rightarrow> Inr (v' # ys)))"
| "visitValue (JArray xs) =
     (case forEachElement xs of Inl e \<Rightarrow> Inl e | Inr ys \<Rightarrow> Inr (JArray ys))"
| "visitValue (JObject ps) = removeSourceLocations (JObject ps)"
| "visitValue JUndefined = Inr JUndefined"
| "visitValue JNull = Inr JNull"
| "visitValue (JBoolean b) = Inr (JBoolean b)"
| "visitValue (JNumber n) = Inr (JNumber n)"
| "visitValue (JString s) = Inr (JString s)"
| "forEachElement [] = Inr []"
| "forEachElement (val # xs) =
     (case removeSourceLocations val of
        Inl e \<Rightarrow> Inl e
      | Inr v' \<Rightarrow> (case forEachElement xs of Inl e \<Rightarrow> Inl e | Inr ys \<Rightarrow> Inr (v' # ys)))"
  by pat_completeness auto
termination
  apply (relation "measures [\<lambda>x. case x of
      Inl (Inl v) \<Rightarrow> size v
    | Inl (Inr ps) \<Rightarrow> size_list (size_prod (\<lambda>_. 0) size) ps
    | Inr (Inl xs) \<Rightarrow> size_list size xs
    | Inr (Inr (Inl v)) \<Rightarrow> size v
    | Inr (Inr (Inr xs)) \<Rightarrow> size_list size xs,
    \<lambda>x. case x of
      Inl (Inl v) \<Rightarrow> 0
    | Inl (Inr ps) \<Rightarrow> 0
    | Inr (Inl xs) \<Rightarrow> 0
    | Inr (Inr (Inl v)) \<Rightarrow> Suc 0
    | Inr (Inr (Inr xs)) \<Rightarrow> 0]")
  apply (auto simp: less_Suc_eq_le size_deleteLoc)
  done

subsection \<open>The document as a tree of objects\<close>

text \<open>
  The object tree of a document of the typed model: every node is an object with its
  \<open>kind\<close>, its children, and its \<open>loc\<close> when it has one; a missing name or selection
  set is \<open>null\<close>. \<open>stripLocations\<close> is what \<open>removeSourceLocations\<close> does to a
  document as seen through this tree (lemma \<open>strip_document_tree\<close> below).
\<close>

definition nameTree :: "string \<Rightarrow> JSValue" where
  "nameTree n = JObject [(''kind'', JString ''Name''), (''value'', JString n)]"

fun locProperty :: "Location option \<Rightarrow> (string \<times> JSValue) list" where
  "locProperty None = []"
| "locProperty (Some (Location s e)) =
     [(''loc'', JObject [(''start'', JNumber (int s)), (''end'', JNumber (int e))])]"

definition treeNode :: "(string \<times> JSValue) list \<Rightarrow> Location option \<Rightarrow> JSValue" where
  "treeNode ps l = JObject (ps @ locProperty l)"

fun selectionTree :: "SelectionNode \<Rightarrow> JSValue"
and selectionSetTree :: "SelectionSetNode \<Rightarrow> JSValue"
and selectionsTree :: "SelectionNode list \<Rightarrow> JSValue list" where
  "selectionTree (Field l n None) =
     treeNode [(''kind'', JString ''Field''), (''name'', nameTree n),
               (''selectionSet'', JNull)] l"
| "selectionTree (Field l n (Some s)) =
     treeNode [(''kind'', JString ''Field''), (''name'', nameTree n),
               (''selectionSet'', selectionSetTree s)] l"
| "selectionTree (FragmentSpread l n) =
     treeNode [(''kind'', JString ''FragmentSpread''), (''name'', nameTree n)] l"
| "selectionTree (InlineFragment l s) =
     treeNode [(''kind'', JString ''InlineFragment''),
               (''selectionSet'', selectionSetTree s)] l"
| "selectionSetTree (SelectionSet l selections) =
     treeNode [(''kind'', JString ''SelectionSet''),
               (''selections'', JArray (selectionsTree selections))] l"
| "selectionsTree [] = []"
| "selectionsTree (selection # rest) = selectionTree selection # selectionsTree rest"

fun definitionTree :: "DefinitionNode \<Rightarrow> JSValue" where
  "definitionTree (OperationDefinition l n s) =
     treeNode [(''kind'', JString ''OperationDefinition''),
               (''name'', case n of None \<Rightarrow> JNull | Some m \<Rightarrow> nameTree m),
               (''selectionSet'', selectionSetTree s)] l"
| "definitionTree (FragmentDefinition l n t s) =
     treeNode [(''kind'', JString ''FragmentDefinition''), (''name'', nameTree n),
               (''typeCondition'', JObject [(''kind'', JString ''NamedType''), (''name'', nameTree t)]),
               (''selectionSet'', selectionSetTree s)] l"
| "definitionTree (OtherDefinition l k) = treeNode [(''kind'', JString k)] l"

definition documentNodeTree :: "DocumentNode \<Rightarrow> JSValue" where
  "documentNodeTree document =
     treeNode [(''kind'', JString ''Document''),
               (''definitions'', JArray (map definitionTree (definitions document)))]
       (loc document)"

fun stripSelection :: "SelectionNode \<Rightarrow> SelectionNode"
and stripSelectionSet :: "SelectionSetNode \<Rightarrow> SelectionSetNode"
and stripSelections :: "SelectionNode list \<Rightarrow> SelectionNode list" where
  "stripSelection (Field l n None) = Field None n None"
| "stripSelection (Field l n (Some s)) = Field None n (Some (stripSelectionSet s))"
| "stripSelection (FragmentSpread l n) = FragmentSpread None n"
| "stripSelection (InlineFragment l s) = InlineFragment None (stripSelectionSet s)"
| "stripSelectionSet (SelectionSet l selections) = SelectionSet None (stripSelections selections)"
| "stripSelections [] = []"
| "stripSelections (selection # rest) = stripSelection selection # stripSelections rest"

fun stripDefinition :: "DefinitionNode \<Rightarrow> DefinitionNode" where
  "stripDefinition (OperationDefinition l n s) = OperationDefinition None n (stripSelectionSet s)"
| "stripDefinition (FragmentDefinition l n t s) = FragmentDefinition None n t (stripSelectionSet s)"
| "stripDefinition (OtherDefinition l k) = OtherDefinition None k"

definition stripLocations :: "DocumentNode \<Rightarrow> DocumentNode" where
  "stripLocations document =
     document\<lparr>loc := None, definitions := map stripDefinition (definitions document)\<rparr>"

section \<open>Import directives\<close>

text \<open>
  loader.ts, lines 44 to 77: the scan of \<open>extractImports\<close> for import directives. A
  string is a list of characters with codes up to 255; the line separators U+2028 and
  U+2029, which the pattern's \<open>.\<close> does not match either, are outside the model.
\<close>

text \<open>
  \<open>source.split(/(\r\n|\r|\n)/)\<close>: the lines of the source, with the line terminators
  between them as elements of their own (the group of the pattern is captured).
\<close>

fun splitLines :: "string \<Rightarrow> string list" where
  "splitLines [] = [[]]"
| "splitLines [c] = (if c = CHR 0x0D \<or> c = CHR 0x0A then [[], [c], []] else [[c]])"
| "splitLines (c # d # cs) =
     (if c = CHR 0x0D \<and> d = CHR 0x0A then [] # [c, d] # splitLines cs
      else if c = CHR 0x0D \<or> c = CHR 0x0A then [] # [c] # splitLines (d # cs)
      else (case splitLines (d # cs) of
              line # rest \<Rightarrow> (c # line) # rest
            | [] \<Rightarrow> [[c]]))"

text \<open>\<open>s.split(" ")\<close>: the pieces of a string between the occurrences of a character.\<close>

fun splitOn :: "char \<Rightarrow> string \<Rightarrow> string list" where
  "splitOn sep [] = [[]]"
| "splitOn sep (c # cs) =
     (if c = sep then [] # splitOn sep cs
      else (case splitOn sep cs of
              word # rest \<Rightarrow> (c # word) # rest
            | [] \<Rightarrow> [[c]]))"

definition isQuote :: "char \<Rightarrow> bool" where
  "isQuote c = (c = CHR 0x22 \<or> c = CHR 0x27)"

definition isLineTerminator :: "char \<Rightarrow> bool" where
  "isLineTerminator c = (c = CHR 0x0A \<or> c = CHR 0x0D)"

text \<open>
  \<open>token.match(/^["'](.+)["']/)\<close>, giving the text of the group: a quote character,
  then as many characters other than line terminators as possible (at least one) such
  that a quote character follows them.
\<close>

definition matchQuotedPath :: "string \<Rightarrow> string option" where
  "matchQuotedPath token =
     (case token of
        [] \<Rightarrow> None
      | q # rest \<Rightarrow>
          if \<not> isQuote q then None
          else
            let run = takeWhile (\<lambda>c. \<not> isLineTerminator c) rest;
                upToLastQuote = rev (dropWhile (\<lambda>c. \<not> isQuote c) (rev run))
            in if length upToLastQuote < 2 then None else Some (butlast upToLastQuote))"

definition MalformedImportDirective :: error where
  "MalformedImportDirective = Error ''#import statement must specify a quoted file path''"

text \<open>
  The body of the loop over the lines: \<open>Inr None\<close> when the line is skipped,
  \<open>Inr (Some filePath)\<close> when it is an import of \<open>filePath\<close>, and the error thrown
  otherwise. \<open>comment[1]\<close> is \<open>undefined\<close> when the comment has one piece only, and
  the empty string is falsy as well.
\<close>

definition scanLine :: "string \<Rightarrow> error + string option" where
  "scanLine line =
     (case line of
        [] \<Rightarrow> Inr None
      | c # rest \<Rightarrow>
          if c \<noteq> CHR ''#'' then Inr None
          else
            let comment = splitOn (CHR '' '') rest in
            if hd comment \<noteq> ''import'' then Inr None
            else
              (case (if length comment > 1 \<and> comment ! 1 \<noteq> [] then matchQuotedPath (comment ! 1)
                     else None) of
                 None \<Rightarrow> Inl MalformedImportDirective
               | Some filePath \<Rightarrow> Inr (Some filePath)))"

text \<open>
  The loop: the paths of the imports found before the loop ends or throws, and the
  error thrown, if any.
\<close>

fun scanLines :: "string list \<Rightarrow> string list \<times> error option" where
  "scanLines [] = ([], None)"
| "scanLines (line # rest) =
     (case scanLine line of
        Inl e \<Rightarrow> ([], Some e)
      | Inr None \<Rightarrow> scanLines rest
      | Inr (Some filePath) \<Rightarrow>
          (case scanLines rest of (paths, r) \<Rightarrow> (filePath # paths, r)))"

section \<open>The loader context, the libraries and the effects\<close>

text \<open>
  What loader.ts takes from its host and from the libraries it imports is a parameter of
  the model. \<open>LoaderContext\<close> is webpack's loader context: the directory \<open>context\<close>
  of the resource, the options (\<open>loaderUtils.getOptions\<close>), \<open>resolve\<close>,
  \<open>fs.readFile\<close>, \<open>fs.stat\<close>, and whether \<open>this.async()\<close> returns a callback.
  \<open>Library\<close> holds the functions of graphql, of \<open>JSON\<close> (\<open>JSON.parse\<close> followed by
  \<open>buildClientSchema\<close> is one function, \<open>JSON.stringify\<close> is one function for each of
  the two kinds of argument) and of \<open>path\<close>. A port that fails returns \<open>Inl\<close>.
\<close>

datatype OutputTarget = OutputString | OutputDocument

record LoaderOptions =
  optSchema :: "string option"
  optValidate :: bool
  optOutput :: "string option"
  optRemoveUnusedFragments :: bool

datatype Stats = Stats bool

fun isFile :: "Stats \<Rightarrow> bool" where
  "isFile (Stats b) = b"

record LoaderContext =
  loaderContext :: string
  loaderOptions :: LoaderOptions
  loaderResolve :: "string \<Rightarrow> string \<Rightarrow> error + string"
  fsReadFile :: "string \<Rightarrow> error + string"
  fsStat :: "string \<Rightarrow> error + Stats"
  asyncCallback :: bool

record 'schema Library =
  graphqlParse :: "string \<Rightarrow> error + DocumentNode"
  graphqlPrint :: "DocumentNode \<Rightarrow> string"
  graphqlValidate :: "'schema \<Rightarrow> DocumentNode \<Rightarrow> error list"
  buildClientSchema :: "string \<Rightarrow> error + 'schema"
  stringifyString :: "string \<Rightarrow> string"
  stringifyDocument :: "DocumentNode \<Rightarrow> string"
  pathJoin :: "string \<Rightarrow> string \<Rightarrow> string"
  pathDirname :: "string \<Rightarrow> string"

text \<open>
  The calls a run makes to its host, in order. The imports of one file are resolved and
  read concurrently; the model lists the effects of such a group in one of the orders
  they can have (all resolutions, then the recorded dependencies, then the reads, then
  the imported files one after the other), and lists the effects of every sibling also
  when one of them fails. A result is \<open>None\<close> when the run does not end within the
  given number of nested calls.
\<close>

datatype event =
    Cacheable
  | Resolve string string
  | AddDependency string
  | ReadFile string
  | Stat string
  | EmitError error
  | Done "error + string"

type_synonym 'a outcome = "(event list \<times> (error + 'a)) option"

section \<open>findSchemaFile\<close>

text \<open>
  loader.ts, lines 199 to 224. The loop \<open>while (true)\<close> ends when a directory holds
  the file or is its own parent; whether that happens depends on \<open>dirname\<close>, so the
  function takes the number of iterations it may make and returns \<open>None\<close> when they
  do not suffice. \<open>context_dir\<close> is the parameter \<open>context\<close>, which the message of
  the error names; an error of \<open>stat\<close> is caught and counts as no file.
\<close>

definition SchemaNotFound :: "string \<Rightarrow> string \<Rightarrow> error" where
  "SchemaNotFound schemaPath context_dir =
     Error (''Could not find schema file '' @ [CHR 0x27] @ schemaPath @
            '' from any parent of '' @ [CHR 0x27] @ context_dir @ [CHR 0x27])"

fun findSchemaFile ::
  "nat \<Rightarrow> LoaderContext \<Rightarrow> 's Library \<Rightarrow> string \<Rightarrow> string \<Rightarrow> string \<Rightarrow> string outcome" where
  "findSchemaFile 0 loader lib context_dir schemaPath currentContext = None"
| "findSchemaFile (Suc fuel) loader lib context_dir schemaPath currentContext =
     (let fileName = pathJoin lib currentContext schemaPath;
          found = (case fsStat loader fileName of Inl err \<Rightarrow> False | Inr stats \<Rightarrow> isFile stats)
      in if found then Some ([Stat fileName], Inr fileName)
         else
           let parent = pathDirname lib currentContext in
           if parent = currentContext
           then Some ([Stat fileName], Inl (SchemaNotFound schemaPath context_dir))
           else (case findSchemaFile fuel loader lib context_dir schemaPath parent of
                   None \<Rightarrow> None
                 | Some (events, r) \<Rightarrow> Some (Stat fileName # events, r)))"

section \<open>loadOptions\<close>

text \<open>
  loader.ts, lines 170 to 197. The result holds the schema object (when \<open>validate\<close> is
  set), the output target and the pruning flag. An option that is missing or the empty
  string is falsy.
\<close>

record 'schema Options =
  optionsSchema :: "'schema option"
  optionsOutput :: OutputTarget
  optionsRemoveUnusedFragments :: bool

definition MissingSchemaOption :: error where
  "MissingSchemaOption = Error ''schema option must be passed if validate is true''"

definition loadOptions ::
  "nat \<Rightarrow> LoaderContext \<Rightarrow> 's Library \<Rightarrow> 's Options outcome" where
  "loadOptions fuel loader lib =
     (let options = loaderOptions loader;
          finish = (\<lambda>sch. \<lparr>optionsSchema = sch,
                     optionsOutput = (if optOutput options = None \<or> optOutput options = Some []
                                  \<or> optOutput options = Some ''string''
                               then OutputString else OutputDocument),
                     optionsRemoveUnusedFragments = optRemoveUnusedFragments options\<rparr>)
      in if optValidate options then
           (case optSchema options of
              None \<Rightarrow> Some ([], Inl MissingSchemaOption)
            | Some schemaOption \<Rightarrow>
                if schemaOption = [] then Some ([], Inl MissingSchemaOption)
                else
                  (case findSchemaFile fuel loader lib (loaderContext loader) schemaOption
                          (loaderContext loader) of
                     None \<Rightarrow> None
                   | Some (events, Inl err) \<Rightarrow> Some (events, Inl err)
                   | Some (events, Inr schemaPath) \<Rightarrow>
                       (case fsReadFile loader schemaPath of
                          Inl err \<Rightarrow>
                            Some (events @ [AddDependency schemaPath, ReadFile schemaPath], Inl err)
                        | Inr schemaString \<Rightarrow>
                            (case buildClientSchema lib schemaString of
                               Inl err \<Rightarrow>
                                 Some (events @ [AddDependency schemaPath, ReadFile schemaPath],
                                       Inl err)
                             | Inr sch \<Rightarrow>
                                 Some (events @ [AddDependency schemaPath, ReadFile schemaPath],
                                       Inr (finish (Some sch)))))))
         else Some ([], Inr (finish None)))"

section \<open>extractImports and loadSource\<close>

text \<open>
  loader.ts, lines 39 to 99. \<open>loadSource\<close> parses a source and \<open>extractImports\<close>
  loads the files its directives import, by \<open>loadSource\<close> again; the first argument
  bounds the depth of this recursion, which has no other bound when files import each
  other in a cycle. Every path is resolved by \<open>loader.resolve(loader.context, ...)\<close>,
  and the same \<open>loader\<close> is passed on to the nested calls. When the scan throws, the
  resolutions it started for the earlier directives of the file have been requested
  (their later callbacks are not part of the run's result and are left out).
\<close>

text \<open>
  \<open>Promise.all\<close>: \<open>firstError\<close> is the rejection of a group of port calls and
  \<open>successes\<close> their results; \<open>joinAll\<close> joins the loads of the imported files.
\<close>

fun firstError :: "(error + 'a) list \<Rightarrow> error option" where
  "firstError [] = None"
| "firstError (Inl e # rs) = Some e"
| "firstError (Inr x # rs) = firstError rs"

fun successes :: "(error + 'a) list \<Rightarrow> 'a list" where
  "successes [] = []"
| "successes (Inl e # rs) = successes rs"
| "successes (Inr x # rs) = x # successes rs"

fun joinAll :: "'a outcome list \<Rightarrow> 'a list outcome" where
  "joinAll [] = Some ([], Inr [])"
| "joinAll (None # rest) = None"
| "joinAll (Some (events, r) # rest) =
     (case joinAll rest of
        None \<Rightarrow> None
      | Some (events', rs) \<Rightarrow>
          Some (events @ events',
                (case r of
                   Inl e \<Rightarrow> Inl e
                 | Inr x \<Rightarrow> (case rs of Inl e \<Rightarrow> Inl e | Inr xs \<Rightarrow> Inr (x # xs)))))"

fun loadSource :: "nat \<Rightarrow> LoaderContext \<Rightarrow> 's Library \<Rightarrow> string \<Rightarrow> DocumentNode outcome"
and extractImports ::
  "nat \<Rightarrow> LoaderContext \<Rightarrow> 's Library \<Rightarrow> string \<Rightarrow> DocumentNode \<Rightarrow> DocumentNode outcome" where
  "loadSource 0 loader lib source = None"
| "loadSource (Suc fuel) loader lib source =
     (case graphqlParse lib source of
        Inl err \<Rightarrow> Some ([], Inl err)
      | Inr document \<Rightarrow> extractImports fuel loader lib source document)"
| "extractImports fuel loader lib source document =
     (case scanLines (splitLines source) of
        (filePaths, Some err) \<Rightarrow>
          Some (map (Resolve (loaderContext loader)) filePaths, Inl err)
      | (filePaths, None) \<Rightarrow>
          let resolving = map (Resolve (loaderContext loader)) filePaths;
              resolved = map (loaderResolve loader (loaderContext loader)) filePaths;
              files = successes resolved;
              recording = map AddDependency files
          in (case firstError resolved of
                Some err \<Rightarrow> Some (resolving @ recording, Inl err)
              | None \<Rightarrow>
                  let reading = map ReadFile files;
                      contents = map (fsReadFile loader) files
                  in (case firstError contents of
                        Some err \<Rightarrow> Some (resolving @ recording @ reading, Inl err)
                      | None \<Rightarrow>
                          (case joinAll (map (loadSource fuel loader lib) (successes contents)) of
                             None \<Rightarrow> None
                           | Some (events, Inl err) \<Rightarrow>
                               Some (resolving @ recording @ reading @ events, Inl err)
                           | Some (events, Inr nodes) \<Rightarrow>
                               Some (resolving @ recording @ reading @ events,
                                     Inr (document\<lparr>definitions :=
                                            definitions document @ concat (map definitions nodes)\<rparr>))))))"

section \<open>loader\<close>

text \<open>
  loader.ts, lines 226 to 264. The result of a run is the list of its calls to the host
  and the error its promise is rejected with, if any: without the callback of
  \<open>this.async()\<close> the function throws; otherwise every error of the \<open>try\<close> block is
  passed to \<open>done\<close>. \<open>processDocument\<close> is the three stages between loading and
  validation; the second stage is \<open>removeSourceLocations\<close> in its typed form.
\<close>

definition SynchronousProcessing :: error where
  "SynchronousProcessing = Error ''Loader does not support synchronous processing''"

definition processDocument :: "'s Options \<Rightarrow> DocumentNode \<Rightarrow> DocumentNode" where
  "processDocument options document =
     (let deduplicated = removeDuplicateFragments document;
          stripped = stripLocations deduplicated
      in if optionsRemoveUnusedFragments options then removeUnusedFragments stripped else stripped)"

definition loader ::
  "nat \<Rightarrow> LoaderContext \<Rightarrow> 's Library \<Rightarrow> string \<Rightarrow> (event list \<times> error option) option" where
  "loader fuel this lib source =
     (if \<not> asyncCallback this then Some ([Cacheable], Some SynchronousProcessing)
      else
        (case loadOptions fuel this lib of
           None \<Rightarrow> None
         | Some (events, Inl err) \<Rightarrow> Some (Cacheable # events @ [Done (Inl err)], None)
         | Some (events, Inr options) \<Rightarrow>
             (case loadSource fuel this lib source of
                None \<Rightarrow> None
              | Some (events', Inl err) \<Rightarrow>
                  Some (Cacheable # events @ events' @ [Done (Inl err)], None)
              | Some (events', Inr loaded) \<Rightarrow>
                  let document = processDocument options loaded;
                      validationErrors =
                        (case optionsSchema options of
                           None \<Rightarrow> []
                         | Some sch \<Rightarrow> graphqlValidate lib sch document);
                      out = (if optionsOutput options = OutputDocument
                                then stringifyDocument lib document
                                else stringifyString lib (graphqlPrint lib document))
                  in Some (Cacheable # events @ events' @ map EmitError validationErrors
                             @ [Done (Inr (''module.exports = '' @ out))], None))))"

section \<open>The notions the properties are stated in\<close>

subsection \<open>Fragment names and first occurrences\<close>

text \<open>The names of the fragment definitions of a document, in document order.\<close>

definition fragmentNames :: "DefinitionNode list \<Rightarrow> string list" where
  "fragmentNames defs = List.map_filter fragmentName defs"

text \<open>
  The positions of a definition list that hold an operation (or another definition that
  is not a fragment), or a fragment no earlier position names.
\<close>

definition firstOccurrences :: "DefinitionNode list \<Rightarrow> nat set" where
  "firstOccurrences defs =
     {i. i < length defs \<and>
         (\<forall>n. fragmentName (defs ! i) = Some n \<longrightarrow>
              (\<forall>j<i. fragmentName (defs ! j) \<noteq> Some n))}"

text \<open>The same with a set of names that count as seen before the list starts.\<close>

definition unseenFirst :: "string set \<Rightarrow> DefinitionNode list \<Rightarrow> nat set" where
  "unseenFirst U defs =
     {i. i < length defs \<and>
         (\<forall>n. fragmentName (defs ! i) = Some n \<longrightarrow>
              n \<notin> U \<and> (\<forall>j<i. fragmentName (defs ! j) \<noteq> Some n))}"

subsection \<open>Fragment spreads and reachability\<close>

text \<open>
  The fragment spreads that occur in a selection set, at any depth below fields and
  inline fragments, in order of occurrence.
\<close>

fun spreadsIn :: "SelectionSetNode \<Rightarrow> string list"
and spreadsInSelections :: "SelectionNode list \<Rightarrow> string list"
and spreadsInSelection :: "SelectionNode \<Rightarrow> string list" where
  "spreadsIn (SelectionSet l selections) = spreadsInSelections selections"
| "spreadsInSelections [] = []"
| "spreadsInSelections (selection # rest) =
     spreadsInSelection selection @ spreadsInSelections rest"
| "spreadsInSelection (FragmentSpread l name) = [name]"
| "spreadsInSelection (Field l name None) = []"
| "spreadsInSelection (Field l name (Some selectionSet)) = spreadsIn selectionSet"
| "spreadsInSelection (InlineFragment l selectionSet) = spreadsIn selectionSet"

fun definitionSpreads :: "DefinitionNode \<Rightarrow> string list" where
  "definitionSpreads (OperationDefinition l n s) = spreadsIn s"
| "definitionSpreads (FragmentDefinition l n t s) = spreadsIn s"
| "definitionSpreads (OtherDefinition l k) = []"

text \<open>
  A fragment name is reachable in a definition list when an operation of the list spreads
  it, or a fragment definition of the list whose own name is reachable spreads it.
\<close>

inductive reachable :: "DefinitionNode list \<Rightarrow> string \<Rightarrow> bool" for defs where
  fromOperation:
    "OperationDefinition l n s \<in> set defs \<Longrightarrow> name \<in> set (spreadsIn s) \<Longrightarrow>
     reachable defs name"
| fromFragment:
    "FragmentDefinition l n t s \<in> set defs \<Longrightarrow> reachable defs n \<Longrightarrow>
     name \<in> set (spreadsIn s) \<Longrightarrow> reachable defs name"

text \<open>
  The definitions pruning has to keep: everything that is not a fragment, and the
  fragments whose name is reachable.
\<close>

fun mustKeep :: "DefinitionNode list \<Rightarrow> DefinitionNode \<Rightarrow> bool" where
  "mustKeep defs (FragmentDefinition l n t s) = reachable defs n"
| "mustKeep defs def = True"

text \<open>
  The spread graph of the fragments: an edge from a fragment's name to every name its
  selection set spreads.
\<close>

fun fragmentEdges :: "DefinitionNode list \<Rightarrow> (string \<times> string) list" where
  "fragmentEdges [] = []"
| "fragmentEdges (FragmentDefinition l n t s # defs) =
     map (Pair n) (spreadsIn s) @ fragmentEdges defs"
| "fragmentEdges (def # defs) = fragmentEdges defs"

subsection \<open>Trees without locations\<close>

text \<open>No object of the value has a property \<open>loc\<close>.\<close>

fun carriesNoLoc :: "JSValue \<Rightarrow> bool"
and propertiesCarryNoLoc :: "(string \<times> JSValue) list \<Rightarrow> bool"
and elementsCarryNoLoc :: "JSValue list \<Rightarrow> bool" where
  "carriesNoLoc (JObject ps) = (''loc'' \<notin> set (map fst ps) \<and> propertiesCarryNoLoc ps)"
| "carriesNoLoc (JArray xs) = elementsCarryNoLoc xs"
| "carriesNoLoc JUndefined = True"
| "carriesNoLoc JNull = True"
| "carriesNoLoc (JBoolean b) = True"
| "carriesNoLoc (JNumber n) = True"
| "carriesNoLoc (JString s) = True"
| "propertiesCarryNoLoc [] = True"
| "propertiesCarryNoLoc ((key, v) # ps) = (carriesNoLoc v \<and> propertiesCarryNoLoc ps)"
| "elementsCarryNoLoc [] = True"
| "elementsCarryNoLoc (v # xs) = (carriesNoLoc v \<and> elementsCarryNoLoc xs)"

text \<open>
  A document tree: a value that is not \<open>null\<close> or \<open>undefined\<close>, in which every
  \<open>loc\<close> property is truthy (a location object, whose inside is not constrained),
  no array has an element \<open>null\<close> or \<open>undefined\<close>, and every other property is a
  primitive value, \<open>null\<close>, \<open>undefined\<close>, a document tree or an array of them.
\<close>

fun documentTree :: "JSValue \<Rightarrow> bool"
and propertiesTree :: "(string \<times> JSValue) list \<Rightarrow> bool"
and propertyTree :: "JSValue \<Rightarrow> bool"
and elementsTree :: "JSValue list \<Rightarrow> bool" where
  "documentTree JUndefined = False"
| "documentTree JNull = False"
| "documentTree (JBoolean b) = True"
| "documentTree (JNumber n) = True"
| "documentTree (JString s) = True"
| "documentTree (JArray xs) = elementsTree xs"
| "documentTree (JObject ps) = propertiesTree ps"
| "propertiesTree [] = True"
| "propertiesTree ((key, v) # ps) =
     ((if key = ''loc'' then truthy v else propertyTree v) \<and> propertiesTree ps)"
| "propertyTree JUndefined = True"
| "propertyTree JNull = True"
| "propertyTree (JBoolean b) = True"
| "propertyTree (JNumber n) = True"
| "propertyTree (JString s) = True"
| "propertyTree (JArray xs) = elementsTree xs"
| "propertyTree (JObject ps) = propertiesTree ps"
| "elementsTree [] = True"
| "elementsTree (v # xs) = (documentTree v \<and> elementsTree xs)"

subsection \<open>Import directives\<close>

text \<open>
  A line is an import directive when its first character is \<open>#\<close> and the text from
  there to the first space (or to the end of the line) is \<open>import\<close>. Its argument is
  the text between that space and the next one (empty when there is none).
\<close>

definition isImportDirective :: "string \<Rightarrow> bool" where
  "isImportDirective line =
     (line \<noteq> [] \<and> hd line = CHR ''#'' \<and> takeWhile (\<lambda>c. c \<noteq> CHR '' '') (tl line) = ''import'')"

definition directiveArgument :: "string \<Rightarrow> string" where
  "directiveArgument line = takeWhile (\<lambda>c. c \<noteq> CHR '' '') (drop 8 line)"

text \<open>The text of a string before its last quote character, when that is not empty.\<close>

definition lastQuoted :: "string \<Rightarrow> string option" where
  "lastQuoted rest =
     (let upToLastQuote = rev (dropWhile (\<lambda>c. \<not> isQuote c) (rev rest))
      in if length upToLastQuote < 2 then None else Some (butlast upToLastQuote))"

subsection \<open>The search for the schema file\<close>

text \<open>
  The first \<open>n\<close> directories of the chain that starts at a directory and goes from each
  directory to its parent, ending at a root (a directory that is its own parent);
  whether the chain reaches a root within \<open>n\<close> directories; and whether a directory
  holds a regular file of the schema's name.
\<close>

fun ancestorDirs :: "(string \<Rightarrow> string) \<Rightarrow> nat \<Rightarrow> string \<Rightarrow> string list" where
  "ancestorDirs dirname 0 dir = []"
| "ancestorDirs dirname (Suc n) dir =
     dir # (if dirname dir = dir then [] else ancestorDirs dirname n (dirname dir))"

fun reachesRoot :: "(string \<Rightarrow> string) \<Rightarrow> nat \<Rightarrow> string \<Rightarrow> bool" where
  "reachesRoot dirname 0 dir = False"
| "reachesRoot dirname (Suc n) dir = (dirname dir = dir \<or> reachesRoot dirname n (dirname dir))"

definition holdsSchemaFile :: "LoaderContext \<Rightarrow> 's Library \<Rightarrow> string \<Rightarrow> string \<Rightarrow> bool" where
  "holdsSchemaFile lc lib schemaPath dir =
     (case fsStat lc (pathJoin lib dir schemaPath) of
        Inl err \<Rightarrow> False
      | Inr stats \<Rightarrow> isFile stats)"

text \<open>
  The search as the specification words it: the directories are examined in order, the
  first one that holds the file gives the result, and when the root has been examined
  without a match the search fails.
\<close>

definition schemaSearch ::
  "nat \<Rightarrow> LoaderContext \<Rightarrow> 's Library \<Rightarrow> string \<Rightarrow> string \<Rightarrow> string outcome" where
  "schemaSearch n lc lib context_dir schemaPath =
     (let dirs = ancestorDirs (pathDirname lib) n context_dir;
          skipped = takeWhile (\<lambda>dir. \<not> holdsSchemaFile lc lib schemaPath dir) dirs;
          stat = (\<lambda>dir. Stat (pathJoin lib dir schemaPath))
      in case find (holdsSchemaFile lc lib schemaPath) dirs of
           Some dir \<Rightarrow> Some (map stat (skipped @ [dir]), Inr (pathJoin lib dir schemaPath))
         | None \<Rightarrow>
             if reachesRoot (pathDirname lib) n context_dir
             then Some (map stat dirs, Inl (SchemaNotFound schemaPath context_dir))
             else None)"

subsection \<open>Reports to the host\<close>

text \<open>The calls that report to the host: \<open>emitError\<close> and \<open>done\<close>.\<close>

fun isReport :: "event \<Rightarrow> bool" where
  "isReport (EmitError e) = True"
| "isReport (Done r) = True"
| "isReport ev = False"

section \<open>Example inputs\<close>

text \<open>
  An operation that spreads \<open>Dup\<close>, and two fragments of that name with different
  bodies, as two imported files would contribute them.
\<close>

definition scenarioB :: DocumentNode where
  "scenarioB = \<lparr>loc = None, definitions =
     [OperationDefinition None (Some ''Q'') (SelectionSet None [FragmentSpread None ''Dup'']),
      FragmentDefinition None ''Dup'' ''T'' (SelectionSet None [Field None ''id'' None]),
      FragmentDefinition None ''Dup'' ''T'' (SelectionSet None [Field None ''name'' None])]\<rparr>"

text \<open>
  Fragment \<open>A\<close> is used by the operation; \<open>B\<close> is unused and spreads \<open>C\<close>, which
  nothing else references.
\<close>

definition scenarioC :: DocumentNode where
  "scenarioC = \<lparr>loc = None, definitions =
     [OperationDefinition None (Some ''Q'') (SelectionSet None [FragmentSpread None ''A'']),
      FragmentDefinition None ''A'' ''T'' (SelectionSet None [Field None ''id'' None]),
      FragmentDefinition None ''B'' ''T'' (SelectionSet None [FragmentSpread None ''C'']),
      FragmentDefinition None ''C'' ''T'' (SelectionSet None [Field None ''id'' None])]\<rparr>"

text \<open>
  The text \<open>query Q { id } fragment A on T { ...B } fragment B on T { ...A }\<close>: two
  fragments that spread each other, and an operation that uses neither.
\<close>

definition cyclicFragments :: DocumentNode where
  "cyclicFragments = \<lparr>loc = None, definitions =
     [OperationDefinition None (Some ''Q'') (SelectionSet None [Field None ''id'' None]),
      FragmentDefinition None ''A'' ''T'' (SelectionSet None [FragmentSpread None ''B'']),
      FragmentDefinition None ''B'' ''T'' (SelectionSet None [FragmentSpread None ''A''])]\<rparr>"

text \<open>
  A host with three files: a schema one directory above the loader's context, and two
  fragment files in a directory below it, the first of which imports the second by a
  path relative to its own directory. Requests are resolved by appending them (without
  their leading dot) to the base directory. A third fragment file has a space in its
  name. The parser of the example knows the six texts of the example.
\<close>

definition importsFragmentA :: string where
  \<open>importsFragmentA = ''#import "./fragments/a.graphql"'' @ [CHR 0x0A] @ ''query Q { ...A }''\<close>

definition fragmentAText :: string where
  \<open>fragmentAText = ''#import "./b.graphql"'' @ [CHR 0x0A] @ ''fragment A on T { ...B }''\<close>

definition fragmentBText :: string where
  "fragmentBText = ''fragment B on T { id }''"

definition sharedFragmentsText :: string where
  "sharedFragmentsText = ''fragment Shared on T { id }''"

definition importsSharedFragments :: string where
  \<open>importsSharedFragments =
     ''#import "./shared fragments.graphql"'' @ [CHR 0x0A] @ ''query Q { ...Shared }''\<close>

definition plainQuery :: string where
  "plainQuery = ''query Q { id }''"

definition exampleFiles :: "(string \<times> string) list" where
  "exampleFiles =
     [(''/app/schema.json'', ''{}''),
      (''/app/src/fragments/a.graphql'', fragmentAText),
      (''/app/src/fragments/b.graphql'', fragmentBText),
      (''/app/src/shared fragments.graphql'', sharedFragmentsText)]"

definition exampleResolve :: "string \<Rightarrow> string \<Rightarrow> error + string" where
  "exampleResolve base request =
     (let path = base @ drop 1 request
      in if map_of exampleFiles path = None then Inl (Error ''Module not found'') else Inr path)"

definition exampleReadFile :: "string \<Rightarrow> error + string" where
  "exampleReadFile path =
     (case map_of exampleFiles path of
        None \<Rightarrow> Inl (Error ''ENOENT'')
      | Some text \<Rightarrow> Inr text)"

definition exampleStat :: "string \<Rightarrow> error + Stats" where
  "exampleStat path =
     (if map_of exampleFiles path = None then Inl (Error ''ENOENT'') else Inr (Stats True))"

definition exampleDirname :: "string \<Rightarrow> string" where
  "exampleDirname path =
     (let dir = rev (drop 1 (dropWhile (\<lambda>c. c \<noteq> CHR ''/'') (rev path)))
      in if dir = [] then ''/'' else dir)"

definition exampleJoin :: "string \<Rightarrow> string \<Rightarrow> string" where
  "exampleJoin dir file = (if dir = ''/'' then dir @ file else dir @ ''/'' @ file)"

definition exampleParse :: "string \<Rightarrow> error + DocumentNode" where
  "exampleParse text =
     (if text = plainQuery then
        Inr \<lparr>loc = Some (Location 0 14), definitions =
          [OperationDefinition (Some (Location 0 14)) (Some ''Q'')
             (SelectionSet (Some (Location 8 14)) [Field (Some (Location 10 12)) ''id'' None])]\<rparr>
      else if text = importsFragmentA then
        Inr \<lparr>loc = Some (Location 0 48), definitions =
          [OperationDefinition (Some (Location 32 48)) (Some ''Q'')
             (SelectionSet (Some (Location 40 48)) [FragmentSpread (Some (Location 42 46)) ''A''])]\<rparr>
      else if text = fragmentAText then
        Inr \<lparr>loc = Some (Location 0 46), definitions =
          [FragmentDefinition (Some (Location 22 46)) ''A'' ''T''
             (SelectionSet (Some (Location 38 46)) [FragmentSpread (Some (Location 40 44)) ''B''])]\<rparr>
      else if text = fragmentBText then
        Inr \<lparr>loc = Some (Location 0 22), definitions =
          [FragmentDefinition (Some (Location 0 22)) ''B'' ''T''
             (SelectionSet (Some (Location 16 22)) [Field (Some (Location 18 20)) ''id'' None])]\<rparr>
      else if text = importsSharedFragments then
        Inr \<lparr>loc = Some (Location 0 58), definitions =
          [OperationDefinition (Some (Location 37 58)) (Some ''Q'')
             (SelectionSet (Some (Location 45 58))
                [FragmentSpread (Some (Location 47 56)) ''Shared''])]\<rparr>
      else if text = sharedFragmentsText then
        Inr \<lparr>loc = Some (Location 0 27), definitions =
          [FragmentDefinition (Some (Location 0 27)) ''Shared'' ''T''
             (SelectionSet (Some (Location 21 27)) [Field (Some (Location 23 25)) ''id'' None])]\<rparr>
      else Inl (Error ''Syntax Error''))"

definition exampleLibrary :: "string Library" where
  "exampleLibrary =
     \<lparr>graphqlParse = exampleParse,
      graphqlPrint = (\<lambda>document. concat (map (\<lambda>d. case d of
          OperationDefinition l n s \<Rightarrow> ''query ''
        | FragmentDefinition l n t s \<Rightarrow> ''fragment ''
        | OtherDefinition l k \<Rightarrow> ''other '') (definitions document))),
      graphqlValidate = (\<lambda>sch document. [Error ''Unknown type T'', Error ''Unknown field id'']),
      buildClientSchema = (\<lambda>text. if text = ''{}'' then Inr text else Inl (Error ''Invalid schema'')),
      stringifyString = (\<lambda>s. [CHR 0x22] @ s @ [CHR 0x22]),
      stringifyDocument = (\<lambda>document. ''{}''),
      pathJoin = exampleJoin,
      pathDirname = exampleDirname\<rparr>"

definition exampleLoader :: LoaderContext where
  "exampleLoader =
     \<lparr>loaderContext = ''/app/src'',
      loaderOptions = \<lparr>optSchema = Some ''schema.json'', optValidate = True, optOutput = None,
                        optRemoveUnusedFragments = True\<rparr>,
      loaderResolve = exampleResolve,
      fsReadFile = exampleReadFile,
      fsStat = exampleStat,
      asyncCallback = True\<rparr>"

text \<open>The same host, configured to validate without a schema option.\<close>

definition exampleLoaderWithoutSchema :: LoaderContext where
  "exampleLoaderWithoutSchema =
     exampleLoader\<lparr>loaderOptions := (loaderOptions exampleLoader)\<lparr>optSchema := None\<rparr>\<rparr>"

text \<open>
  The tree of \<open>{ id }\<close> as the parser builds it, with \<open>null\<close> for the missing name,
  alias and selection set, and its tree without locations.
\<close>

definition exampleTree :: JSValue where
  "exampleTree =
     JObject
       [(''kind'', JString ''Document''),
        (''definitions'', JArray
           [JObject
              [(''kind'', JString ''OperationDefinition''),
               (''operation'', JString ''query''),
               (''name'', JNull),
               (''directives'', JArray []),
               (''selectionSet'', JObject
                  [(''kind'', JString ''SelectionSet''),
                   (''selections'', JArray
                      [JObject
                         [(''kind'', JString ''Field''),
                          (''alias'', JNull),
                          (''name'', JObject
                             [(''kind'', JString ''Name''), (''value'', JString ''id''),
                              (''loc'', JObject [(''start'', JNumber 2), (''end'', JNumber 4)])]),
                          (''arguments'', JArray []),
                          (''selectionSet'', JNull),
                          (''loc'', JObject [(''start'', JNumber 2), (''end'', JNumber 4)])]]),
                   (''loc'', JObject [(''start'', JNumber 0), (''end'', JNumber 6)])]),
               (''loc'', JObject [(''start'', JNumber 0), (''end'', JNumber 6)])]]),
        (''loc'', JObject [(''start'', JNumber 0), (''end'', JNumber 6)])]"

definition exampleTreeStripped :: JSValue where
  "exampleTreeStripped =
     JObject
       [(''kind'', JString ''Document''),
        (''definitions'', JArray
           [JObject
              [(''kind'', JString ''OperationDefinition''),
               (''operation'', JString ''query''),
               (''name'', JNull),
               (''directives'', JArray []),
               (''selectionSet'', JObject
                  [(''kind'', JString ''SelectionSet''),
                   (''selections'', JArray
                      [JObject
                         [(''kind'', JString ''Field''),
                          (''alias'', JNull),
                          (''name'', JObject
                             [(''kind'', JString ''Name''), (''value'', JString ''id'')]),
                          (''arguments'', JArray []),
                          (''selectionSet'', JNull)]])])]])]"

section \<open>Deduplication keeps the first fragment of every name\<close>

lemma fragmentNames_simps [simp]:
  "fragmentNames [] = []"
  "fragmentNames (FragmentDefinition l n t s # defs) = n # fragmentNames defs"
  "fragmentNames (OperationDefinition l m s # defs) = fragmentNames defs"
  "fragmentNames (OtherDefinition l k # defs) = fragmentNames defs"
  by (simp_all add: fragmentNames_def List.map_filter_simps)

lemma set_fragmentNames_dedup:
  "set (fragmentNames (dedupFilter U defs)) = set (fragmentNames defs) - U"
  by (induction U defs rule: dedupFilter.induct) auto

lemma distinct_fragmentNames_dedup: "distinct (fragmentNames (dedupFilter U defs))"
  by (induction U defs rule: dedupFilter.induct) (auto simp: set_fragmentNames_dedup)

lemma subseq_dedup: "subseq (dedupFilter U defs) defs"
  by (induction U defs rule: dedupFilter.induct) auto

lemma filter_nonfragment_dedup:
  "filter (\<lambda>d. \<not> isFragmentDefinition d) (dedupFilter U defs) =
   filter (\<lambda>d. \<not> isFragmentDefinition d) defs"
  by (induction U defs rule: dedupFilter.induct) auto

lemma find_dedup:
  "n \<notin> U \<Longrightarrow>
   find (\<lambda>d. fragmentName d = Some n) (dedupFilter U defs) =
   find (\<lambda>d. fragmentName d = Some n) defs"
  by (induction U defs rule: dedupFilter.induct) auto

lemma all_less_Suc_shift: "(\<forall>j<Suc i. P j) = (P 0 \<and> (\<forall>j<i. P (Suc j)))"
  by (auto simp: less_Suc_eq_0_disj)

lemma unseenFirst_shift:
  "{j. Suc j \<in> unseenFirst U (x # xs)} = unseenFirst (U \<union> set_option (fragmentName x)) xs"
  by (auto simp: unseenFirst_def all_less_Suc_shift)

lemma unseenFirst_zero:
  "0 \<in> unseenFirst U (x # xs) \<longleftrightarrow> (\<forall>n. fragmentName x = Some n \<longrightarrow> n \<notin> U)"
  by (simp add: unseenFirst_def)

lemma dedup_nths: "dedupFilter U defs = nths defs (unseenFirst U defs)"
proof (induction U defs rule: dedupFilter.induct)
  case (1 usedName)
  then show ?case by simp
next
  case (2 usedName l name t s defs)
  show ?case
  proof (cases "name \<in> usedName")
    case True
    then have "usedName \<union> set_option (fragmentName (FragmentDefinition l name t s)) = usedName"
      by auto
    with True 2 show ?thesis
      by (simp add: nths_Cons unseenFirst_shift unseenFirst_zero)
  next
    case False
    with 2 show ?thesis
      by (simp add: nths_Cons unseenFirst_shift unseenFirst_zero)
  qed
qed (simp_all add: nths_Cons unseenFirst_shift unseenFirst_zero)

lemma unseenFirst_empty: "unseenFirst {} defs = firstOccurrences defs"
  by (simp add: unseenFirst_def firstOccurrences_def)

text \<open>
  C4. For every document, the definitions \<open>removeDuplicateFragments\<close> leaves are exactly
  those at the positions that hold a definition other than a fragment, or a fragment
  whose name no earlier position carries, in their original order: a fragment is dropped
  if and only if a fragment of its name stands earlier. So every fragment name of the
  document is the name of exactly one remaining fragment, which is the earliest
  definition of that name; the definitions that are not fragments are all kept; and the
  result is a subsequence of the input.
\<close>

theorem removeDuplicateFragments_first_wins:
  "definitions (removeDuplicateFragments document) =
     nths (definitions document) (firstOccurrences (definitions document))
   \<and> distinct (fragmentNames (definitions (removeDuplicateFragments document)))
   \<and> set (fragmentNames (definitions (removeDuplicateFragments document))) =
       set (fragmentNames (definitions document))
   \<and> (\<forall>n. find (\<lambda>d. fragmentName d = Some n) (definitions (removeDuplicateFragments document)) =
           find (\<lambda>d. fragmentName d = Some n) (definitions document))
   \<and> filter (\<lambda>d. \<not> isFragmentDefinition d) (definitions (removeDuplicateFragments document)) =
       filter (\<lambda>d. \<not> isFragmentDefinition d) (definitions document)
   \<and> subseq (definitions (removeDuplicateFragments document)) (definitions document)"
  by (simp add: removeDuplicateFragments_def dedup_nths [symmetric] unseenFirst_empty [symmetric]
      distinct_fragmentNames_dedup set_fragmentNames_dedup find_dedup
      filter_nonfragment_dedup subseq_dedup)

theorem removeDuplicateFragments_first_wins_witness:
  "definitions (removeDuplicateFragments scenarioB) = take 2 (definitions scenarioB)
   \<and> nths (definitions scenarioB) (firstOccurrences (definitions scenarioB)) =
       take 2 (definitions scenarioB)
   \<and> fragmentNames (definitions (removeDuplicateFragments scenarioB)) = [''Dup'']"
proof -
  have r: "definitions (removeDuplicateFragments scenarioB) = take 2 (definitions scenarioB)"
    by (simp add: removeDuplicateFragments_def scenarioB_def)
  have n: "fragmentNames (take 2 (definitions scenarioB)) = [''Dup'']"
    by (simp add: scenarioB_def)
  from removeDuplicateFragments_first_wins [of scenarioB] r n show ?thesis by simp
qed

section \<open>Pruning of unused fragments\<close>

lemma traverse_spreadsIn:
  "traverse s U = U \<union> set (spreadsIn s)"
  "traverseSelections ss U = U \<union> set (spreadsInSelections ss)"
  "traverseSelection sel U = U \<union> set (spreadsInSelection sel)"
  by (induction s U and ss U and sel U
      rule: traverse_traverseSelections_traverseSelection.induct) auto

lemma findFragmentSpreads_eq:
  "findFragmentSpreads defs U = U \<union> (\<Union>d\<in>set defs. set (definitionSpreads d))"
  by (induction defs U rule: findFragmentSpreads.induct) (auto simp: traverse_spreadsIn)

lemma reachable_used: "reachable defs n \<Longrightarrow> n \<in> findFragmentSpreads defs {}"
  by (induction rule: reachable.induct) (force simp: findFragmentSpreads_eq)+

lemma mustKeep_keep: "mustKeep defs d \<Longrightarrow> keepDefinition (findFragmentSpreads defs {}) d"
  by (cases d rule: DefinitionNode.exhaust) (auto dest: reachable_used)

lemma set_sweep: "set (sweep defs) \<subseteq> set defs"
  by (auto simp: sweep_def)

lemma reachable_mono:
  "reachable defs n \<Longrightarrow> set defs \<subseteq> set defs' \<Longrightarrow> reachable defs' n"
  by (induction rule: reachable.induct) (auto intro: reachable.intros)

lemma reachable_sweep: "reachable defs n \<Longrightarrow> reachable (sweep defs) n"
proof (induction rule: reachable.induct)
  case (fromOperation l n s name)
  then show ?case by (auto simp: sweep_def intro: reachable.fromOperation)
next
  case (fromFragment l n t s name)
  from fromFragment.hyps(2) have "n \<in> findFragmentSpreads defs {}" by (rule reachable_used)
  with fromFragment.hyps(1) have "FragmentDefinition l n t s \<in> set (sweep defs)"
    by (simp add: sweep_def)
  with fromFragment show ?case by (auto intro: reachable.fromFragment)
qed

lemma reachable_sweep_iff: "reachable (sweep defs) n = reachable defs n"
  using reachable_sweep reachable_mono [OF _ set_sweep] by blast

lemma mustKeep_sweep: "mustKeep (sweep defs) d = mustKeep defs d"
  by (cases d rule: DefinitionNode.exhaust) (simp_all add: reachable_sweep_iff)

lemma filter_mustKeep_sweep:
  "filter (mustKeep defs) (sweep defs) = filter (mustKeep defs) defs"
  unfolding sweep_def filter_filter
  by (rule filter_cong) (auto dest: mustKeep_keep)

lemma removeUnusedFragments_step:
  "length (definitions document) \<noteq> length (sweep (definitions document)) \<Longrightarrow>
   removeUnusedFragments document =
     removeUnusedFragments (document\<lparr>definitions := sweep (definitions document)\<rparr>)"
  by (subst removeUnusedFragments.simps) (simp add: Let_def)

lemma removeUnusedFragments_stop:
  "length (definitions document) = length (sweep (definitions document)) \<Longrightarrow>
   removeUnusedFragments document = document\<lparr>definitions := sweep (definitions document)\<rparr>"
  by (subst removeUnusedFragments.simps) (simp add: Let_def)

lemma removeUnusedFragments_mustKeep:
  "filter (mustKeep (definitions document)) (definitions (removeUnusedFragments document))
   = filter (mustKeep (definitions document)) (definitions document)"
proof (induction document rule: removeUnusedFragments.induct)
  case (1 document)
  let ?d' = "document\<lparr>definitions := sweep (definitions document)\<rparr>"
  show ?case
  proof (cases "length (definitions document) \<noteq> length (definitions ?d')")
    case True
    have eq: "mustKeep (definitions ?d') = mustKeep (definitions document)"
      by (rule ext) (simp add: mustKeep_sweep)
    from True have "removeUnusedFragments document = removeUnusedFragments ?d'"
      by (simp add: removeUnusedFragments_step)
    moreover from 1 [OF refl refl True]
    have "filter (mustKeep (definitions document)) (definitions (removeUnusedFragments ?d'))
        = filter (mustKeep (definitions document)) (sweep (definitions document))"
      unfolding eq by simp
    ultimately show ?thesis by (simp add: filter_mustKeep_sweep)
  next
    case False
    then have "removeUnusedFragments document = ?d'"
      by (simp add: removeUnusedFragments_stop)
    then show ?thesis by (simp add: filter_mustKeep_sweep)
  qed
qed

lemma length_filter_eq_imp: "length (filter P xs) = length xs \<Longrightarrow> filter P xs = xs"
proof -
  assume a: "length (filter P xs) = length xs"
  have "length (filter P xs) + length (filter (\<lambda>x. \<not> P x) xs) = length xs"
    by (rule sum_length_filter_compl)
  with a have "filter (\<lambda>x. \<not> P x) xs = []" by simp
  then have "\<forall>x\<in>set xs. P x" by (simp add: filter_empty_conv)
  then show ?thesis by simp
qed

lemma removeUnusedFragments_fixpoint:
  "sweep (definitions (removeUnusedFragments document)) =
   definitions (removeUnusedFragments document)"
proof (induction document rule: removeUnusedFragments.induct)
  case (1 document)
  let ?d' = "document\<lparr>definitions := sweep (definitions document)\<rparr>"
  show ?case
  proof (cases "length (definitions document) \<noteq> length (definitions ?d')")
    case True
    then have "removeUnusedFragments document = removeUnusedFragments ?d'"
      by (simp add: removeUnusedFragments_step)
    with 1 [OF refl refl True] show ?thesis by simp
  next
    case False
    then have r: "removeUnusedFragments document = ?d'"
      by (simp add: removeUnusedFragments_stop)
    from False
    have "length (filter (keepDefinition (findFragmentSpreads (definitions document) {}))
            (definitions document)) = length (definitions document)"
      by (simp add: sweep_def)
    then have "sweep (definitions document) = definitions document"
      unfolding sweep_def by (rule length_filter_eq_imp)
    then show ?thesis unfolding r by simp
  qed
qed

lemma removeUnusedFragments_subset:
  "set (definitions (removeUnusedFragments document)) \<subseteq> set (definitions document)"
proof (induction document rule: removeUnusedFragments.induct)
  case (1 document)
  let ?d' = "document\<lparr>definitions := sweep (definitions document)\<rparr>"
  show ?case
  proof (cases "length (definitions document) \<noteq> length (definitions ?d')")
    case True
    then have "removeUnusedFragments document = removeUnusedFragments ?d'"
      by (simp add: removeUnusedFragments_step)
    with 1 [OF refl refl True] set_sweep [of "definitions document"] show ?thesis by auto
  next
    case False
    then have r: "removeUnusedFragments document = ?d'"
      by (simp add: removeUnusedFragments_stop)
    show ?thesis unfolding r using set_sweep [of "definitions document"] by simp
  qed
qed

lemma fragmentEdges_iff:
  "(a, b) \<in> set (fragmentEdges defs) \<longleftrightarrow>
   (\<exists>l t s. FragmentDefinition l a t s \<in> set defs \<and> b \<in> set (spreadsIn s))"
  by (induction defs rule: fragmentEdges.induct) auto

lemma fragmentEdges_mono:
  "set defs \<subseteq> set defs' \<Longrightarrow> set (fragmentEdges defs) \<subseteq> set (fragmentEdges defs')"
  by (clarsimp simp: fragmentEdges_iff) blast

lemma used_cases:
  assumes "n \<in> findFragmentSpreads defs {}"
  shows "(\<exists>l m s. OperationDefinition l m s \<in> set defs \<and> n \<in> set (spreadsIn s))
       \<or> (\<exists>a. (a, n) \<in> set (fragmentEdges defs))"
proof -
  from assms obtain d where d: "d \<in> set defs" "n \<in> set (definitionSpreads d)"
    by (auto simp: findFragmentSpreads_eq)
  then show ?thesis
    by (cases d rule: DefinitionNode.exhaust) (auto simp: fragmentEdges_iff)
qed

text \<open>
  In a definition list the sweep leaves unchanged, and whose fragments do not spread
  each other in a cycle, every fragment is reachable: a fragment that is kept is spread
  by an operation or by another kept fragment, and following the spreads backwards ends
  at an operation because the spread graph is well-founded.
\<close>

lemma fixpoint_reachable:
  assumes fp: "sweep defs = defs"
    and acyc: "acyclic (set (fragmentEdges defs))"
  shows "FragmentDefinition l n t s \<in> set defs \<Longrightarrow> reachable defs n"
proof -
  have wf: "wf (set (fragmentEdges defs))"
    using acyc by (simp add: finite_acyclic_wf)
  have "\<forall>l t s. FragmentDefinition l n t s \<in> set defs \<longrightarrow> reachable defs n"
  proof (induction n rule: wf_induct_rule [OF wf])
    case (1 n)
    show ?case
    proof (intro allI impI)
      fix l t s assume mem: "FragmentDefinition l n t s \<in> set defs"
      with fp have "FragmentDefinition l n t s \<in> set (sweep defs)" by simp
      then have "n \<in> findFragmentSpreads defs {}" by (simp add: sweep_def)
      from used_cases [OF this] show "reachable defs n"
      proof
        assume "\<exists>l m s. OperationDefinition l m s \<in> set defs \<and> n \<in> set (spreadsIn s)"
        then show ?thesis by (auto intro: reachable.fromOperation)
      next
        assume "\<exists>a. (a, n) \<in> set (fragmentEdges defs)"
        then obtain a where e: "(a, n) \<in> set (fragmentEdges defs)" ..
        then obtain l' t' s' where f: "FragmentDefinition l' a t' s' \<in> set defs"
          "n \<in> set (spreadsIn s')" by (auto simp: fragmentEdges_iff)
        from 1 [OF e] f(1) have "reachable defs a" by blast
        with f show ?thesis by (auto intro: reachable.fromFragment)
      qed
    qed
  qed
  then show "FragmentDefinition l n t s \<in> set defs \<Longrightarrow> reachable defs n" by blast
qed

lemma scenarioC_result:
  "removeUnusedFragments scenarioC = scenarioC\<lparr>definitions := take 2 (definitions scenarioC)\<rparr>"
  by (simp add: removeUnusedFragments.simps scenarioC_def sweep_def Let_def)

lemma cyclicFragments_result: "removeUnusedFragments cyclicFragments = cyclicFragments"
  by (simp add: removeUnusedFragments.simps cyclicFragments_def sweep_def Let_def)

lemma cyclic_unreachable: "reachable (definitions cyclicFragments) n \<Longrightarrow> False"
  by (induction rule: reachable.induct) (auto simp: cyclicFragments_def)

lemma scenarioC_reachable_A: "reachable (definitions scenarioC) ''A''"
  by (rule reachable.fromOperation [of None "Some ''Q''" "SelectionSet None [FragmentSpread None ''A'']"])
     (simp_all add: scenarioC_def)

text \<open>
  C1, as stated, fails: in \<open>cyclicFragments\<close> the fragments \<open>A\<close> and \<open>B\<close> spread each
  other, so each is in the set of used names and the first pass removes nothing; \<open>A\<close>
  is retained although no operation reaches it.
\<close>

theorem removeUnusedFragments_retains_cycle:
  "FragmentDefinition None ''A'' ''T'' (SelectionSet None [FragmentSpread None ''B''])
     \<in> set (definitions (removeUnusedFragments cyclicFragments))
   \<and> \<not> reachable (definitions (removeUnusedFragments cyclicFragments)) ''A''"
  using cyclic_unreachable [of "''A''"]
  by (auto simp: cyclicFragments_result) (simp add: cyclicFragments_def)

text \<open>
  C1, amended. For every document, after \<open>removeUnusedFragments\<close> every retained
  fragment definition is named by a fragment spread inside a retained operation or a
  retained fragment definition; and when the fragments of the document do not spread each
  other in a cycle, every retained fragment definition is transitively reachable, in the
  pruned document, from an operation definition.
\<close>

theorem removeUnusedFragments_retained_are_used:
  "(\<forall>d\<in>set (definitions (removeUnusedFragments document)). \<forall>n. fragmentName d = Some n \<longrightarrow>
      (\<exists>user\<in>set (definitions (removeUnusedFragments document)). n \<in> set (definitionSpreads user)))
   \<and> (acyclic (set (fragmentEdges (definitions document))) \<longrightarrow>
      (\<forall>d\<in>set (definitions (removeUnusedFragments document)). \<forall>n. fragmentName d = Some n \<longrightarrow>
         reachable (definitions (removeUnusedFragments document)) n))"
proof (intro conjI impI ballI allI)
  let ?r = "definitions (removeUnusedFragments document)"
  have fp: "sweep ?r = ?r" by (rule removeUnusedFragments_fixpoint)
  { fix d n assume d: "d \<in> set ?r" "fragmentName d = Some n"
    then obtain l t s where "d = FragmentDefinition l n t s"
      by (cases d rule: DefinitionNode.exhaust) auto
    with d fp have "FragmentDefinition l n t s \<in> set (sweep ?r)" by simp
    then have "n \<in> findFragmentSpreads ?r {}" by (simp add: sweep_def)
    then show "\<exists>user\<in>set ?r. n \<in> set (definitionSpreads user)"
      by (simp add: findFragmentSpreads_eq) }
  { fix d n assume ac: "acyclic (set (fragmentEdges (definitions document)))"
      and d: "d \<in> set ?r" "fragmentName d = Some n"
    from d obtain l t s where e: "d = FragmentDefinition l n t s"
      by (cases d rule: DefinitionNode.exhaust) auto
    have "acyclic (set (fragmentEdges ?r))"
      using ac fragmentEdges_mono [OF removeUnusedFragments_subset] by (rule acyclic_subset)
    from fixpoint_reachable [OF fp this] d(1) e show "reachable ?r n" by blast }
qed

theorem removeUnusedFragments_retained_are_used_witness:
  "acyclic (set (fragmentEdges (definitions scenarioC)))
   \<and> definitions (removeUnusedFragments scenarioC) = take 2 (definitions scenarioC)
   \<and> (\<exists>user\<in>set (definitions (removeUnusedFragments scenarioC)). ''A'' \<in> set (definitionSpreads user))
   \<and> reachable (definitions (removeUnusedFragments scenarioC)) ''A''"
proof -
  let ?A = "FragmentDefinition None ''A'' ''T'' (SelectionSet None [Field None ''id'' None])"
  have ac: "acyclic (set (fragmentEdges (definitions scenarioC)))"
    by (simp add: scenarioC_def acyclic_insert wf_acyclic)
  have r: "definitions (removeUnusedFragments scenarioC) = take 2 (definitions scenarioC)"
    by (simp add: scenarioC_result)
  have mem: "?A \<in> set (definitions (removeUnusedFragments scenarioC))"
    by (simp add: r) (simp add: scenarioC_def)
  have nm: "fragmentName ?A = Some ''A''" by simp
  from removeUnusedFragments_retained_are_used [of scenarioC] ac mem nm show ?thesis
    using r by blast
qed

text \<open>
  C5. For every document, \<open>removeUnusedFragments\<close> removes no fragment definition whose
  name is transitively reachable from an operation of the document, and no definition
  that is not a fragment (so no operation definition): these definitions are in the
  result, as often and in the same order as in the document.
\<close>

theorem removeUnusedFragments_keeps_reachable:
  "filter (mustKeep (definitions document)) (definitions (removeUnusedFragments document)) =
     filter (mustKeep (definitions document)) (definitions document)
   \<and> filter (\<lambda>d. \<not> isFragmentDefinition d) (definitions (removeUnusedFragments document)) =
       filter (\<lambda>d. \<not> isFragmentDefinition d) (definitions document)
   \<and> (\<forall>d\<in>set (definitions document). mustKeep (definitions document) d \<longrightarrow>
         d \<in> set (definitions (removeUnusedFragments document)))"
proof (intro conjI ballI impI)
  let ?defs = "definitions document" and ?r = "definitions (removeUnusedFragments document)"
  show k: "filter (mustKeep ?defs) ?r = filter (mustKeep ?defs) ?defs"
    by (rule removeUnusedFragments_mustKeep)
  have nf: "\<And>xs. filter (\<lambda>d. \<not> isFragmentDefinition d) (filter (mustKeep ?defs) xs) =
      filter (\<lambda>d. \<not> isFragmentDefinition d) xs"
  proof -
    fix xs :: "DefinitionNode list"
    have "\<And>d. \<not> isFragmentDefinition d \<Longrightarrow> mustKeep ?defs d"
      by (case_tac d rule: DefinitionNode.exhaust) simp_all
    then show "filter (\<lambda>d. \<not> isFragmentDefinition d) (filter (mustKeep ?defs) xs) =
      filter (\<lambda>d. \<not> isFragmentDefinition d) xs"
      unfolding filter_filter by (intro filter_cong) auto
  qed
  from nf [of ?r] nf [of ?defs] k
  show "filter (\<lambda>d. \<not> isFragmentDefinition d) ?r = filter (\<lambda>d. \<not> isFragmentDefinition d) ?defs"
    by simp
  fix d assume "d \<in> set ?defs" "mustKeep ?defs d"
  then have "d \<in> set (filter (mustKeep ?defs) ?defs)" by simp
  with k have "d \<in> set (filter (mustKeep ?defs) ?r)" by simp
  then show "d \<in> set ?r" by simp
qed

theorem removeUnusedFragments_keeps_reachable_witness:
  "reachable (definitions scenarioC) ''A''
   \<and> FragmentDefinition None ''A'' ''T'' (SelectionSet None [Field None ''id'' None])
       \<in> set (definitions (removeUnusedFragments scenarioC))
   \<and> OperationDefinition None (Some ''Q'') (SelectionSet None [FragmentSpread None ''A''])
       \<in> set (definitions (removeUnusedFragments scenarioC))"
proof -
  let ?A = "FragmentDefinition None ''A'' ''T'' (SelectionSet None [Field None ''id'' None])"
  let ?Q = "OperationDefinition None (Some ''Q'') (SelectionSet None [FragmentSpread None ''A''])"
  have a: "?A \<in> set (definitions scenarioC)" and q: "?Q \<in> set (definitions scenarioC)"
    by (simp_all add: scenarioC_def)
  have ka: "mustKeep (definitions scenarioC) ?A" using scenarioC_reachable_A by simp
  have kq: "mustKeep (definitions scenarioC) ?Q" by simp
  from removeUnusedFragments_keeps_reachable [of scenarioC] a q ka kq scenarioC_reachable_A
  show ?thesis by blast
qed

text \<open>
  C7. Pruning is idempotent: for every document, \<open>removeUnusedFragments\<close> applied to its
  own result returns that result.
\<close>

theorem removeUnusedFragments_idempotent:
  "removeUnusedFragments (removeUnusedFragments document) = removeUnusedFragments document"
proof -
  let ?r = "removeUnusedFragments document"
  have "sweep (definitions ?r) = definitions ?r" by (rule removeUnusedFragments_fixpoint)
  then show ?thesis by (simp add: removeUnusedFragments_stop)
qed

theorem removeUnusedFragments_idempotent_witness:
  "removeUnusedFragments (removeUnusedFragments scenarioC) =
     scenarioC\<lparr>definitions := take 2 (definitions scenarioC)\<rparr>
   \<and> removeUnusedFragments scenarioC \<noteq> scenarioC"
  using removeUnusedFragments_idempotent [of scenarioC]
  by (simp add: scenarioC_result) (simp add: scenarioC_def)

section \<open>Location stripping\<close>

lemma documentTree_propertyTree: "documentTree v \<Longrightarrow> propertyTree v"
  by (cases v) auto

lemma propertiesTree_mem:
  "propertiesTree ps \<Longrightarrow> (k, v) \<in> set ps \<Longrightarrow>
   (if k = ''loc'' then truthy v else propertyTree v)"
  by (induction ps) auto

lemma elementsTree_iff: "elementsTree xs \<longleftrightarrow> (\<forall>v\<in>set xs. documentTree v)"
  by (induction xs) auto

lemma getProperty_loc_truthy:
  "propertiesTree ps \<Longrightarrow> (''loc'', w) \<in> set ps \<Longrightarrow> truthy (getProperty ps ''loc'')"
proof (induction ps)
  case Nil
  then show ?case by simp
next
  case (Cons p ps)
  obtain k v where p: "p = (k, v)" by (cases p)
  show ?case
  proof (cases "k = ''loc''")
    case True
    with Cons.prems p show ?thesis by (simp add: getProperty_def)
  next
    case False
    with Cons p have "truthy (getProperty ps ''loc'')" by auto
    with False p show ?thesis by (simp add: getProperty_def)
  qed
qed

lemma set_deleteLoc: "set (deleteLoc ps) \<subseteq> set ps"
  by (auto simp: deleteLoc_def deleteProperty_def)

lemma deleteLoc_no_loc:
  assumes "propertiesTree ps"
  shows "''loc'' \<notin> set (map fst (deleteLoc ps))"
proof
  assume "''loc'' \<in> set (map fst (deleteLoc ps))"
  then obtain w where w: "(''loc'', w) \<in> set (deleteLoc ps)" by auto
  with set_deleteLoc have "(''loc'', w) \<in> set ps" by blast
  with assms have "truthy (getProperty ps ''loc'')" by (rule getProperty_loc_truthy)
  then have "deleteLoc ps = deleteProperty ''loc'' ps" by (simp add: deleteLoc_def)
  with w show False by (simp add: deleteProperty_def)
qed

lemma deleteLoc_values:
  assumes "propertiesTree ps" and "(k, v) \<in> set (deleteLoc ps)"
  shows "propertyTree v"
proof -
  from assms(2) have "k \<in> set (map fst (deleteLoc ps))" by force
  with deleteLoc_no_loc [OF assms(1)] have "k \<noteq> ''loc''" by blast
  moreover from assms(2) set_deleteLoc have "(k, v) \<in> set ps" by blast
  ultimately show ?thesis using propertiesTree_mem [OF assms(1)] by force
qed

lemma removeSourceLocations_all:
  "documentTree v \<longrightarrow> (\<exists>v'. removeSourceLocations v = Inr v' \<and> carriesNoLoc v')"
  "(\<forall>(k, v)\<in>set ps. propertyTree v) \<longrightarrow>
     (\<exists>qs. visitKeys ps = Inr qs \<and> propertiesCarryNoLoc qs \<and> map fst qs = map fst ps)"
  "(\<forall>v\<in>set xs. propertyTree v) \<longrightarrow>
     (\<exists>ys. visitIndices xs = Inr ys \<and> elementsCarryNoLoc ys)"
  "propertyTree w \<longrightarrow> (\<exists>w'. visitValue w = Inr w' \<and> carriesNoLoc w')"
  "(\<forall>v\<in>set zs. documentTree v) \<longrightarrow>
     (\<exists>ys. forEachElement zs = Inr ys \<and> elementsCarryNoLoc ys)"
proof (induction v and ps and xs and w and zs
    rule: removeSourceLocations_visitKeys_visitIndices_visitValue_forEachElement.induct)
  case (6 xs)
  then show ?case
    by (auto simp: elementsTree_iff dest: documentTree_propertyTree)
next
  case (7 ps)
  show ?case
  proof
    assume "documentTree (JObject ps)"
    then have t: "propertiesTree ps" by simp
    have "\<forall>(k, v)\<in>set (deleteLoc ps). propertyTree v"
      using deleteLoc_values [OF t] by blast
    with 7 obtain qs where
      q: "visitKeys (deleteLoc ps) = Inr qs" "propertiesCarryNoLoc qs"
         "map fst qs = map fst (deleteLoc ps)" by blast
    with deleteLoc_no_loc [OF t] show "\<exists>v'. removeSourceLocations (JObject ps) = Inr v' \<and> carriesNoLoc v'"
      by simp
  qed
next
  case (9 key v ps)
  then show ?case by (auto split: sum.splits)
next
  case (11 v xs)
  then show ?case by (auto split: sum.splits)
next
  case (12 xs)
  then show ?case by (auto simp: elementsTree_iff)
next
  case (20 val xs)
  then show ?case by (auto split: sum.splits)
qed auto

lemma getProperty_absent: "key \<notin> set (map fst ps) \<Longrightarrow> getProperty ps key = JUndefined"
  by (induction ps) (auto simp: getProperty_def)

lemma deleteLoc_locProperty:
  "''loc'' \<notin> set (map fst ps) \<Longrightarrow> deleteLoc (ps @ locProperty l) = ps"
proof (cases l)
  case None
  assume "''loc'' \<notin> set (map fst ps)"
  then have "getProperty ps ''loc'' = JUndefined" by (rule getProperty_absent)
  with None show ?thesis by (simp add: deleteLoc_def)
next
  case (Some L)
  assume a: "''loc'' \<notin> set (map fst ps)"
  obtain s e where L: "L = Location s e" by (cases L)
  from a have "map_of ps ''loc'' = None" by (simp add: map_of_eq_None_iff)
  then have "truthy (getProperty (ps @ locProperty l) ''loc'')"
    by (simp add: getProperty_def Some L map_add_def)
  moreover from a have "filter (\<lambda>p. fst p \<noteq> ''loc'') ps = ps"
    by (force simp: filter_id_conv)
  ultimately show ?thesis by (simp add: deleteLoc_def deleteProperty_def Some L)
qed

lemma removeSourceLocations_treeNode:
  "''loc'' \<notin> set (map fst ps) \<Longrightarrow>
   removeSourceLocations (treeNode ps l) =
     (case visitKeys ps of Inl e \<Rightarrow> Inl e | Inr qs \<Rightarrow> Inr (treeNode qs None))"
  by (simp add: treeNode_def deleteLoc_locProperty split: sum.splits)

lemma visitValue_treeNode [simp]:
  "visitValue (treeNode ps l) = removeSourceLocations (treeNode ps l)"
  by (simp add: treeNode_def)

lemma visitValue_selectionSetTree [simp]:
  "visitValue (selectionSetTree s) = removeSourceLocations (selectionSetTree s)"
  by (cases s) simp

lemma visitValue_nameTree [simp]: "visitValue (nameTree n) = Inr (nameTree n)"
  by (simp add: nameTree_def deleteLoc_def getProperty_def)

lemma strip_selection_tree:
  "removeSourceLocations (selectionTree sel) = Inr (selectionTree (stripSelection sel))"
  "removeSourceLocations (selectionSetTree s) = Inr (selectionSetTree (stripSelectionSet s))"
  "forEachElement (selectionsTree sels) = Inr (selectionsTree (stripSelections sels))"
  by (induction sel and s and sels rule: selectionTree_selectionSetTree_selectionsTree.induct)
     (simp_all add: removeSourceLocations_treeNode)

lemma strip_definition_tree:
  "removeSourceLocations (definitionTree d) = Inr (definitionTree (stripDefinition d))"
  by (cases d rule: DefinitionNode.exhaust)
     (simp_all add: removeSourceLocations_treeNode strip_selection_tree deleteLoc_def
        getProperty_def split: option.splits)

lemma strip_definitions_tree:
  "forEachElement (map definitionTree defs) = Inr (map definitionTree (map stripDefinition defs))"
  by (induction defs) (simp_all add: strip_definition_tree)

lemma strip_document_tree:
  "removeSourceLocations (documentNodeTree document) = Inr (documentNodeTree (stripLocations document))"
  by (simp add: documentNodeTree_def stripLocations_def removeSourceLocations_treeNode
      strip_definitions_tree)

text \<open>
  The tree of every document of the typed model is a document tree, so the result about
  document trees below covers every document the stages of the loader work on.
\<close>

lemma propertiesTree_append:
  "propertiesTree (ps @ qs) = (propertiesTree ps \<and> propertiesTree qs)"
  by (induction ps) auto

lemma propertiesTree_locProperty: "propertiesTree (locProperty l)"
  by (cases l rule: locProperty.cases) auto

lemma documentTree_treeNode: "documentTree (treeNode ps l) = propertiesTree ps"
  by (simp add: treeNode_def propertiesTree_append propertiesTree_locProperty)

lemma propertyTree_treeNode: "propertyTree (treeNode ps l) = propertiesTree ps"
  by (simp add: treeNode_def propertiesTree_append propertiesTree_locProperty)

lemma selection_trees:
  "documentTree (selectionTree sel)"
  "documentTree (selectionSetTree s)"
  "elementsTree (selectionsTree sels)"
  by (induction sel and s and sels rule: selectionTree_selectionSetTree_selectionsTree.induct)
     (simp_all add: documentTree_treeNode nameTree_def documentTree_propertyTree)

lemma definition_tree: "documentTree (definitionTree d)"
  by (cases d rule: DefinitionNode.exhaust)
     (simp_all add: documentTree_treeNode nameTree_def documentTree_propertyTree selection_trees
        split: option.splits)

lemma document_tree: "documentTree (documentNodeTree document)"
  by (simp add: documentNodeTree_def documentTree_treeNode elementsTree_iff definition_tree)

section \<open>Scanning for import directives\<close>

lemma splitOn_nonempty: "splitOn sep s \<noteq> []"
  by (induction s) (auto split: list.splits)

lemma hd_splitOn: "hd (splitOn sep s) = takeWhile (\<lambda>c. c \<noteq> sep) s"
  by (induction s) (auto split: list.splits simp: splitOn_nonempty)

lemma splitOn_append:
  "sep \<notin> set w \<Longrightarrow> splitOn sep (w @ sep # rest) = w # splitOn sep rest"
  by (induction w) (auto split: list.splits)

lemma splitOn_no_sep: "sep \<notin> set w \<Longrightarrow> splitOn sep w = [w]"
  by (induction w) (auto split: list.splits)

lemma matchQuotedPath_Nil [simp]: "matchQuotedPath [] = None"
  by (simp add: matchQuotedPath_def)

lemma length_dropWhile_append:
  "\<not> P y \<Longrightarrow> length (y # ys) \<le> length (dropWhile P (xs @ y # ys))"
  by (induction xs) auto

lemma matchQuotedPath_no_terminator:
  assumes "\<forall>c\<in>set rest. \<not> isLineTerminator c"
  shows "matchQuotedPath (q # rest) = (if isQuote q then lastQuoted rest else None)"
proof -
  from assms have "takeWhile (\<lambda>c. \<not> isLineTerminator c) rest = rest"
    by (simp add: takeWhile_eq_all_conv)
  then show ?thesis
    unfolding matchQuotedPath_def lastQuoted_def by (simp only: list.case) simp
qed

lemma lastQuoted_append:
  assumes "isQuote q2" "p \<noteq> []" "\<forall>c\<in>set tail. \<not> isQuote c"
  shows "lastQuoted (p @ q2 # tail) = Some p"
proof -
  from assms have "dropWhile (\<lambda>c. \<not> isQuote c) (rev tail @ q2 # rev p) = q2 # rev p"
    by (simp add: dropWhile_append)
  then have "rev (dropWhile (\<lambda>c. \<not> isQuote c) (rev (p @ q2 # tail))) = p @ [q2]"
    by simp
  with assms(2) show ?thesis unfolding lastQuoted_def Let_def
    by (simp only:) simp
qed

lemma lastQuoted_Some:
  assumes "lastQuoted rest = Some p"
  shows "\<exists>q2 tail. rest = p @ q2 # tail \<and> isQuote q2 \<and> p \<noteq> [] \<and> (\<forall>c\<in>set tail. \<not> isQuote c)"
proof -
  let ?d = "dropWhile (\<lambda>c. \<not> isQuote c) (rev rest)"
  let ?tail = "rev (takeWhile (\<lambda>c. \<not> isQuote c) (rev rest))"
  from assms have len: "2 \<le> length ?d" and p: "p = butlast (rev ?d)"
    by (auto simp: lastQuoted_def Let_def split: if_splits)
  from len obtain q2 ds where d: "?d = q2 # ds" by (cases ?d) auto
  with len have ds: "ds \<noteq> []" by auto
  from d have q2: "isQuote q2" using hd_dropWhile [of "\<lambda>c. \<not> isQuote c" "rev rest"] by auto
  from p d have p': "p = rev ds" by simp
  have "rev rest = takeWhile (\<lambda>c. \<not> isQuote c) (rev rest) @ ?d" by simp
  then have "rev (rev rest) = rev (takeWhile (\<lambda>c. \<not> isQuote c) (rev rest) @ q2 # ds)"
    using d by (simp only:)
  then have "rest = p @ q2 # ?tail" unfolding p' by simp
  moreover have "\<forall>c\<in>set ?tail. \<not> isQuote c" by (auto dest: set_takeWhileD)
  ultimately show ?thesis using q2 ds p' by blast
qed

lemma lastQuoted_None:
  assumes "lastQuoted rest = None"
  shows "\<not> (\<exists>p q2 tail. rest = p @ q2 # tail \<and> isQuote q2 \<and> p \<noteq> [])"
proof
  assume "\<exists>p q2 tail. rest = p @ q2 # tail \<and> isQuote q2 \<and> p \<noteq> []"
  then obtain p q2 tail where r: "rest = p @ q2 # tail" and q: "isQuote q2" and p: "p \<noteq> []"
    by blast
  from q have "length (q2 # rev p) \<le> length (dropWhile (\<lambda>c. \<not> isQuote c) (rev tail @ q2 # rev p))"
    by (intro length_dropWhile_append) simp
  with p have "2 \<le> length (dropWhile (\<lambda>c. \<not> isQuote c) (rev tail @ q2 # rev p))"
    by (cases p) auto
  then have "2 \<le> length (dropWhile (\<lambda>c. \<not> isQuote c) (rev rest))" unfolding r by simp
  then have "lastQuoted rest \<noteq> None" by (simp add: lastQuoted_def Let_def)
  with assms show False by contradiction
qed

lemma matchQuotedPath_Some_iff:
  assumes nl: "\<forall>c\<in>set token. \<not> isLineTerminator c"
  shows "matchQuotedPath token = Some p \<longleftrightarrow>
    (\<exists>q1 q2 tail. token = q1 # p @ q2 # tail \<and> isQuote q1 \<and> isQuote q2 \<and> p \<noteq> [] \<and>
       (\<forall>c\<in>set tail. \<not> isQuote c))"
proof (cases token)
  case Nil
  then show ?thesis by simp
next
  case (Cons q rest)
  with nl have m: "matchQuotedPath token = (if isQuote q then lastQuoted rest else None)"
    by (simp add: matchQuotedPath_no_terminator)
  show ?thesis
  proof
    assume "matchQuotedPath token = Some p"
    with m have "isQuote q" "lastQuoted rest = Some p" by (auto split: if_splits)
    with lastQuoted_Some [of rest p] Cons show
      "\<exists>q1 q2 tail. token = q1 # p @ q2 # tail \<and> isQuote q1 \<and> isQuote q2 \<and> p \<noteq> [] \<and>
       (\<forall>c\<in>set tail. \<not> isQuote c)" by auto
  next
    assume "\<exists>q1 q2 tail. token = q1 # p @ q2 # tail \<and> isQuote q1 \<and> isQuote q2 \<and> p \<noteq> [] \<and>
       (\<forall>c\<in>set tail. \<not> isQuote c)"
    then obtain q1 q2 tail where t: "token = q1 # p @ q2 # tail" and q: "isQuote q1" "isQuote q2"
      and p: "p \<noteq> []" and tl: "\<forall>c\<in>set tail. \<not> isQuote c" by blast
    from t Cons have "q = q1" "rest = p @ q2 # tail" by auto
    with m q lastQuoted_append [OF q(2) p tl] show "matchQuotedPath token = Some p" by simp
  qed
qed

lemma matchQuotedPath_None_iff:
  assumes nl: "\<forall>c\<in>set token. \<not> isLineTerminator c"
  shows "matchQuotedPath token = None \<longleftrightarrow>
    \<not> (\<exists>p q1 q2 tail. token = q1 # p @ q2 # tail \<and> isQuote q1 \<and> isQuote q2 \<and> p \<noteq> [])"
proof (cases token)
  case Nil
  then show ?thesis by simp
next
  case (Cons q rest)
  with nl have m: "matchQuotedPath token = (if isQuote q then lastQuoted rest else None)"
    by (simp add: matchQuotedPath_no_terminator)
  show ?thesis
  proof
    assume "matchQuotedPath token = None"
    with m have "\<not> isQuote q \<or> lastQuoted rest = None" by (auto split: if_splits)
    with lastQuoted_None [of rest] Cons
    show "\<not> (\<exists>p q1 q2 tail. token = q1 # p @ q2 # tail \<and> isQuote q1 \<and> isQuote q2 \<and> p \<noteq> [])"
      by auto
  next
    assume a: "\<not> (\<exists>p q1 q2 tail. token = q1 # p @ q2 # tail \<and> isQuote q1 \<and> isQuote q2 \<and> p \<noteq> [])"
    show "matchQuotedPath token = None"
    proof (cases "matchQuotedPath token")
      case None
      then show ?thesis .
    next
      case (Some p)
      with matchQuotedPath_Some_iff [OF nl, of p] a show ?thesis by blast
    qed
  qed
qed

lemma scanLine_not_directive: "\<not> isImportDirective line \<Longrightarrow> scanLine line = Inr None"
  by (cases line) (auto simp: scanLine_def isImportDirective_def hd_splitOn Let_def)

lemma scanLine_directive:
  assumes "isImportDirective line"
  shows "scanLine line =
    (case matchQuotedPath (directiveArgument line) of
       None \<Rightarrow> Inl MalformedImportDirective
     | Some filePath \<Rightarrow> Inr (Some filePath))"
proof -
  from assms obtain rest where l: "line = CHR ''#'' # rest"
    and tw: "takeWhile (\<lambda>c. c \<noteq> CHR '' '') rest = ''import''"
    by (cases line) (auto simp: isImportDirective_def)
  have rest: "rest = ''import'' @ dropWhile (\<lambda>c. c \<noteq> CHR '' '') rest"
    using takeWhile_dropWhile_id [of "\<lambda>c. c \<noteq> CHR '' ''" rest] tw by simp
  have hd: "hd (splitOn (CHR '' '') rest) = ''import''" by (simp add: hd_splitOn tw)
  show ?thesis
  proof (cases "dropWhile (\<lambda>c. c \<noteq> CHR '' '') rest")
    case Nil
    with rest have r: "rest = ''import''" by simp
    then have "splitOn (CHR '' '') rest = [''import'']" by (simp add: splitOn_no_sep)
    with l r show ?thesis by (simp add: scanLine_def directiveArgument_def)
  next
    case (Cons c more)
    with hd_dropWhile [of "\<lambda>c. c \<noteq> CHR '' ''" rest] have c: "c = CHR '' ''" by auto
    with rest Cons have r: "rest = ''import'' @ CHR '' '' # more" by simp
    then have sp: "splitOn (CHR '' '') rest = ''import'' # splitOn (CHR '' '') more"
      by (simp only: splitOn_append) (simp add: splitOn_append [of "CHR '' ''" "''import''" more, simplified])
    have arg: "directiveArgument line = hd (splitOn (CHR '' '') more)"
      by (simp add: directiveArgument_def l r hd_splitOn)
    have len: "length (splitOn (CHR '' '') rest) > 1"
      unfolding sp using splitOn_nonempty [of "CHR '' ''" more] by (cases "splitOn (CHR '' '') more") auto
    have nth: "splitOn (CHR '' '') rest ! 1 = hd (splitOn (CHR '' '') more)"
      unfolding sp using splitOn_nonempty [of "CHR '' ''" more] by (cases "splitOn (CHR '' '') more") auto
    show ?thesis
    proof (cases "hd (splitOn (CHR '' '') more) = []")
      case True
      with l hd len nth arg show ?thesis
        by (simp add: scanLine_def Let_def)
    next
      case False
      with l hd len nth arg show ?thesis
        by (simp add: scanLine_def Let_def)
    qed
  qed
qed

text \<open>
  The lines \<open>extractImports\<close> scans: between the line terminators, which are elements
  of their own, stand lines without a terminator. A line that is not skipped starts with
  \<open>#\<close>, so it is one of the latter.
\<close>

lemma splitLines_nonempty: "splitLines s \<noteq> []"
  by (induction s rule: splitLines.induct) (auto split: list.splits)

lemma splitLines_shape:
  "(\<forall>c\<in>set (hd (splitLines source)). \<not> isLineTerminator c) \<and>
   (\<forall>line\<in>set (splitLines source).
      (\<forall>c\<in>set line. \<not> isLineTerminator c) \<or>
      line = [CHR 0x0D, CHR 0x0A] \<or> line = [CHR 0x0D] \<or> line = [CHR 0x0A])"
proof (induction source rule: splitLines.induct)
  case 1
  then show ?case by simp
next
  case (2 c)
  then show ?case by (auto simp: isLineTerminator_def)
next
  case (3 c d cs)
  show ?case
  proof (cases "c = CHR 0x0D \<and> d = CHR 0x0A")
    case True
    with 3 show ?thesis by auto
  next
    case False
    note nf = False
    show ?thesis
    proof (cases "c = CHR 0x0D \<or> c = CHR 0x0A")
      case True
      with nf 3 show ?thesis by auto
    next
      case False
      obtain l ls where sp: "splitLines (d # cs) = l # ls"
        using splitLines_nonempty [of "d # cs"] by (cases "splitLines (d # cs)") auto
      from False have c: "\<not> isLineTerminator c" by (auto simp: isLineTerminator_def)
      have ih: "(\<forall>c\<in>set (hd (splitLines (d # cs))). \<not> isLineTerminator c) \<and>
        (\<forall>line\<in>set (splitLines (d # cs)).
           (\<forall>c\<in>set line. \<not> isLineTerminator c) \<or>
           line = [CHR 0x0D, CHR 0x0A] \<or> line = [CHR 0x0D] \<or> line = [CHR 0x0A])"
        using "3.IH"(3) nf False by blast
      from ih have
        l: "\<forall>c\<in>set l. \<not> isLineTerminator c" and
        ls: "\<forall>line\<in>set ls. (\<forall>c\<in>set line. \<not> isLineTerminator c) \<or>
          line = [CHR 0x0D, CHR 0x0A] \<or> line = [CHR 0x0D] \<or> line = [CHR 0x0A]"
        unfolding sp by simp_all
      from nf False sp have "splitLines (c # d # cs) = (c # l) # ls" by simp
      with c l ls show ?thesis by (simp del: splitLines.simps)
    qed
  qed
qed

lemma scanned_directive_has_no_terminator:
  assumes "line \<in> set (splitLines source)" and "scanLine line \<noteq> Inr None"
  shows "CHR 0x0A \<notin> set line \<and> CHR 0x0D \<notin> set line"
proof -
  from assms(2) have "hd line = CHR ''#''" "line \<noteq> []"
    by (cases line; auto simp: scanLine_def split: if_splits)+
  then have "line \<noteq> [CHR 0x0D, CHR 0x0A]" "line \<noteq> [CHR 0x0D]" "line \<noteq> [CHR 0x0A]"
    by auto
  with splitLines_shape [of source] assms(1) have "\<forall>c\<in>set line. \<not> isLineTerminator c"
    by blast
  then show ?thesis by (auto simp: isLineTerminator_def)
qed

section \<open>The search for the schema file\<close>

lemma findSchemaFile_general:
  "findSchemaFile n lc lib context_dir schemaPath current =
     (let dirs = ancestorDirs (pathDirname lib) n current;
          skipped = takeWhile (\<lambda>dir. \<not> holdsSchemaFile lc lib schemaPath dir) dirs;
          stat = (\<lambda>dir. Stat (pathJoin lib dir schemaPath))
      in case find (holdsSchemaFile lc lib schemaPath) dirs of
           Some dir \<Rightarrow> Some (map stat (skipped @ [dir]), Inr (pathJoin lib dir schemaPath))
         | None \<Rightarrow>
             if reachesRoot (pathDirname lib) n current
             then Some (map stat dirs, Inl (SchemaNotFound schemaPath context_dir))
             else None)"
proof (induction n arbitrary: current)
  case 0
  then show ?case by simp
next
  case (Suc n)
  show ?case
  proof (cases "holdsSchemaFile lc lib schemaPath current")
    case True
    then show ?thesis by (simp add: holdsSchemaFile_def Let_def)
  next
    case False
    note nf = False
    show ?thesis
    proof (cases "pathDirname lib current = current")
      case True
      with nf show ?thesis by (simp add: holdsSchemaFile_def Let_def)
    next
      case False
      with nf Suc [of "pathDirname lib current"] show ?thesis
        by (simp add: holdsSchemaFile_def Let_def split: option.splits)
    qed
  qed
qed

section \<open>Loading a source and its imports\<close>

lemma joinAll_events:
  "joinAll rs = Some (events, r) \<Longrightarrow> ev \<in> set events \<Longrightarrow>
   \<exists>events' r'. Some (events', r') \<in> set rs \<and> ev \<in> set events'"
proof (induction rs arbitrary: events r rule: joinAll.induct)
  case 1
  then show ?case by simp
next
  case (2 rest)
  then show ?case by simp
next
  case (3 events0 r0 rest)
  from "3.prems"(1) obtain events1 rs1 where
    j: "joinAll rest = Some (events1, rs1)" and e: "events = events0 @ events1"
    by (auto split: option.splits)
  from "3.prems"(2) e consider "ev \<in> set events0" | "ev \<in> set events1" by auto
  then show ?case
  proof cases
    case 1
    then show ?thesis by auto
  next
    case 2
    from "3.IH" [OF j 2] show ?thesis by auto
  qed
qed

lemma extractImports_events:
  assumes "extractImports n lc lib source document = Some (events, r)"
    and "ev \<in> set events"
  shows "(\<exists>p. ev = Resolve (loaderContext lc) p) \<or> (\<exists>f. ev = AddDependency f) \<or>
         (\<exists>f. ev = ReadFile f) \<or>
         (\<exists>content events' r'. loadSource n lc lib content = Some (events', r') \<and> ev \<in> set events')"
proof -
  obtain filePaths err where sc: "scanLines (splitLines source) = (filePaths, err)"
    by (cases "scanLines (splitLines source)")
  let ?res = "map (Resolve (loaderContext lc)) filePaths"
  let ?resolved = "map (loaderResolve lc (loaderContext lc)) filePaths"
  let ?files = "successes ?resolved"
  let ?contents = "map (fsReadFile lc) ?files"
  show ?thesis
  proof (cases err)
    case (Some e)
    with assms sc show ?thesis by auto
  next
    case None
    note en = None
    show ?thesis
    proof (cases "firstError ?resolved")
      case (Some e)
      with assms sc en show ?thesis by (auto simp: Let_def)
    next
      case None
      note fr = None
      show ?thesis
      proof (cases "firstError ?contents")
        case (Some e)
        with assms sc en fr show ?thesis by (auto simp: Let_def)
      next
        case None
        with assms(1) sc en fr obtain evs rs where
          j: "joinAll (map (loadSource n lc lib) (successes ?contents)) = Some (evs, rs)"
          and e: "events = ?res @ map AddDependency ?files @ map ReadFile ?files @ evs"
          by (auto simp: Let_def split: option.splits sum.splits)
        from assms(2) e consider "ev \<in> set ?res" | "ev \<in> set (map AddDependency ?files)"
          | "ev \<in> set (map ReadFile ?files)" | "ev \<in> set evs" by auto
        then show ?thesis
        proof cases
          case 4
          from joinAll_events [OF j 4] obtain events' r' where
            "Some (events', r') \<in> set (map (loadSource n lc lib) (successes ?contents))"
            "ev \<in> set events'" by blast
          then have "\<exists>content events' r'. loadSource n lc lib content = Some (events', r') \<and> ev \<in> set events'"
            by (auto simp del: loadSource.simps extractImports.simps) metis
          then show ?thesis by blast
        qed auto
      qed
    qed
  qed
qed

lemma loadSource_events:
  "loadSource n lc lib source = Some (events, r) \<Longrightarrow> ev \<in> set events \<Longrightarrow>
   (\<exists>p. ev = Resolve (loaderContext lc) p) \<or> (\<exists>f. ev = AddDependency f) \<or> (\<exists>f. ev = ReadFile f)"
proof (induction n arbitrary: source events r)
  case 0
  then show ?case by simp
next
  case (Suc n)
  show ?case
  proof (cases "graphqlParse lib source")
    case (Inl err)
    with Suc.prems show ?thesis by simp
  next
    case (Inr document)
    with Suc.prems(1) have
      ex: "extractImports n lc lib source document = Some (events, r)"
      by (simp del: extractImports.simps)
    from extractImports_events [OF ex Suc.prems(2)] Suc.IH show ?thesis by blast
  qed
qed

lemma loadSource_directives:
  assumes "loadSource n lc lib source = Some (events, r)"
    and "graphqlParse lib source = Inr document"
  shows "take (length (fst (scanLines (splitLines source)))) events =
         map (Resolve (loaderContext lc)) (fst (scanLines (splitLines source)))"
proof -
  from assms obtain m where n: "n = Suc m" by (cases n) auto
  with assms have ex: "extractImports m lc lib source document = Some (events, r)"
    by (simp del: extractImports.simps)
  obtain filePaths err where sc: "scanLines (splitLines source) = (filePaths, err)"
    by (cases "scanLines (splitLines source)")
  from ex sc have "\<exists>rest. events = map (Resolve (loaderContext lc)) filePaths @ rest"
    by (auto simp: Let_def split: option.splits sum.splits)
  with sc show ?thesis by auto
qed

lemma findSchemaFile_events:
  "findSchemaFile n lc lib c s cur = Some (events, r) \<Longrightarrow> ev \<in> set events \<Longrightarrow> \<not> isReport ev"
proof (induction n arbitrary: cur events r)
  case 0
  then show ?case by simp
next
  case (Suc n)
  then show ?case
    by (auto simp: Let_def split: if_splits option.splits)
qed

lemma loadOptions_events:
  assumes "loadOptions n lc lib = Some (events, r)" and "ev \<in> set events"
  shows "\<not> isReport ev"
  using assms findSchemaFile_events [of n lc lib "loaderContext lc" _ "loaderContext lc" _ _ ev]
  by (auto simp: loadOptions_def Let_def split: if_splits option.splits sum.splits)

section \<open>The claims about the stages of the loader\<close>

text \<open>
  C6. For every document tree (see \<open>documentTree\<close>: the value is not \<open>null\<close> or
  \<open>undefined\<close>, its \<open>loc\<close> properties are location objects, its arrays hold no
  \<open>null\<close> or \<open>undefined\<close>, and its properties may be primitive values, \<open>null\<close> or
  \<open>undefined\<close>), \<open>removeSourceLocations\<close> ends without an error, and no object of the
  resulting tree, at any depth and under any nesting of objects and arrays, has a
  \<open>loc\<close> property. The walk is a total function on the (finite) tree.
\<close>

theorem removeSourceLocations_strips_every_loc:
  "documentTree v \<Longrightarrow> \<exists>v'. removeSourceLocations v = Inr v' \<and> carriesNoLoc v'"
  using removeSourceLocations_all(1) by blast

lemma exampleTree_stripped: "removeSourceLocations exampleTree = Inr exampleTreeStripped"
  by (simp add: exampleTree_def exampleTreeStripped_def deleteLoc_def deleteProperty_def
      getProperty_def)

theorem removeSourceLocations_strips_every_loc_witness:
  "documentTree exampleTree
   \<and> removeSourceLocations exampleTree = Inr exampleTreeStripped
   \<and> carriesNoLoc exampleTreeStripped"
proof -
  have t: "documentTree exampleTree" by (simp add: exampleTree_def)
  from removeSourceLocations_strips_every_loc [OF t] exampleTree_stripped t
  show ?thesis by auto
qed

text \<open>
  What the scan does with one line (with no line terminator in it, as every line the
  loop scans that starts with \<open>#\<close>). The line is skipped unless its first character
  is \<open>#\<close> and the text between it and the first space is exactly \<open>import\<close>. Of
  such a line only the argument is looked at, the text between that space and the next:
  a path \<open>p\<close> is extracted when the argument is a quote character, then \<open>p\<close>, which
  is not empty, then the last quote character of the argument, then any text without
  quotes; and the error of the malformed directive is thrown when the argument has no
  such form for any \<open>p\<close>.
\<close>

lemma scanLine_characterised:
  assumes "CHR 0x0A \<notin> set line" and "CHR 0x0D \<notin> set line"
  shows "(scanLine line = Inr None) = (\<not> isImportDirective line)
    \<and> (scanLine line = Inr (Some p)) =
        (isImportDirective line \<and>
         (\<exists>q1 q2 tail. directiveArgument line = q1 # p @ q2 # tail \<and> isQuote q1 \<and> isQuote q2 \<and>
            p \<noteq> [] \<and> (\<forall>c\<in>set tail. \<not> isQuote c)))
    \<and> (scanLine line = Inl e) =
        (isImportDirective line \<and> e = MalformedImportDirective \<and>
         \<not> (\<exists>p q1 q2 tail. directiveArgument line = q1 # p @ q2 # tail \<and> isQuote q1 \<and>
              isQuote q2 \<and> p \<noteq> []))"
proof -
  from assms have line: "\<forall>c\<in>set line. \<not> isLineTerminator c"
    by (auto simp: isLineTerminator_def)
  have nl: "\<forall>c\<in>set (directiveArgument line). \<not> isLineTerminator c"
    using line by (auto simp: directiveArgument_def dest!: set_takeWhileD in_set_dropD)
  show ?thesis
  proof (cases "isImportDirective line")
    case False
    then show ?thesis by (simp add: scanLine_not_directive)
  next
    case True
    note d = scanLine_directive [OF True]
    show ?thesis
    proof (cases "matchQuotedPath (directiveArgument line)")
      case None
      with d have s: "scanLine line = Inl MalformedImportDirective" by simp
      from None matchQuotedPath_None_iff [OF nl] have
        n: "\<not> (\<exists>p q1 q2 tail. directiveArgument line = q1 # p @ q2 # tail \<and> isQuote q1 \<and>
              isQuote q2 \<and> p \<noteq> [])" by simp
      then have "\<not> (\<exists>q1 q2 tail. directiveArgument line = q1 # p @ q2 # tail \<and> isQuote q1 \<and> isQuote q2 \<and>
            p \<noteq> [] \<and> (\<forall>c\<in>set tail. \<not> isQuote c))" by blast
      with s n True show ?thesis by auto
    next
      case (Some fp)
      with d have s: "scanLine line = Inr (Some fp)" by simp
      from Some matchQuotedPath_None_iff [OF nl] have
        n: "\<exists>p q1 q2 tail. directiveArgument line = q1 # p @ q2 # tail \<and> isQuote q1 \<and>
              isQuote q2 \<and> p \<noteq> []" by (simp; blast)
      have "(fp = p) = (\<exists>q1 q2 tail. directiveArgument line = q1 # p @ q2 # tail \<and> isQuote q1 \<and> isQuote q2 \<and>
            p \<noteq> [] \<and> (\<forall>c\<in>set tail. \<not> isQuote c))"
        using matchQuotedPath_Some_iff [OF nl, of p] Some by auto
      with s n True show ?thesis by auto
    qed
  qed
qed

text \<open>
  The error of a line is the error of the load: the scan throws, and \<open>loadSource\<close>
  fails with it, whenever the source parses and one of its lines is malformed.
\<close>

lemma scanLine_error: "scanLine line = Inl e \<Longrightarrow> e = MalformedImportDirective"
  by (auto simp: scanLine_def Let_def split: list.splits if_splits option.splits)

lemma scanLines_error:
  "line \<in> set ls \<Longrightarrow> scanLine line = Inl e \<Longrightarrow>
   \<exists>filePaths. scanLines ls = (filePaths, Some MalformedImportDirective)"
proof (induction ls)
  case Nil
  then show ?case by simp
next
  case (Cons l ls)
  show ?case
  proof (cases "scanLine l")
    case (Inl e')
    with scanLine_error [of l e'] show ?thesis by simp
  next
    case (Inr found)
    with Cons.prems have "line \<in> set ls" by auto
    from Cons.IH [OF this Cons.prems(2)] obtain filePaths where
      "scanLines ls = (filePaths, Some MalformedImportDirective)" ..
    with Inr show ?thesis by (cases found) auto
  qed
qed

lemma loadSource_malformed_directive:
  assumes "graphqlParse lib source = Inr document"
    and "line \<in> set (splitLines source)" and "scanLine line = Inl e"
  shows "loadSource (Suc n) lc lib source =
     Some (map (Resolve (loaderContext lc)) (fst (scanLines (splitLines source))),
           Inl MalformedImportDirective)"
proof -
  from scanLines_error [OF assms(2,3)] obtain filePaths where
    "scanLines (splitLines source) = (filePaths, Some MalformedImportDirective)" ..
  with assms(1) show ?thesis by simp
qed

text \<open>
  C2. The claim asks that a line whose first character is \<open>#\<close> and whose next token is
  \<open>import\<close> fails with the error of the malformed directive if and only if the
  remainder of the line is not a double- or single-quoted path, every properly quoted
  path being accepted and extracted. The code does not do that. The source
  \<open>importsSharedFragments\<close> imports \<open>"./shared fragments.graphql"\<close>, a properly
  double-quoted path of a file the host resolves: the scan throws "#import statement
  must specify a quoted file path", \<open>loadSource\<close> fails with it before any resolution,
  and the loader reports it to the host. The line is cut at its spaces before the
  pattern for the quoted path is applied, which then sees \<open>"./shared\<close> only. In the
  other direction the pattern takes any quote character at either end, so a path that
  opens with a double and closes with a single quote is extracted.
\<close>

theorem loadSource_rejects_quoted_path_with_space:
  \<open>scanLine ''#import "./shared fragments.graphql"'' =
     Inl (Error ''#import statement must specify a quoted file path'')
   \<and> loaderResolve exampleLoader (loaderContext exampleLoader) ''./shared fragments.graphql'' =
       Inr ''/app/src/shared fragments.graphql''
   \<and> loadSource 5 exampleLoader exampleLibrary importsSharedFragments =
       Some ([], Inl (Error ''#import statement must specify a quoted file path''))
   \<and> loader 5 exampleLoader exampleLibrary importsSharedFragments =
       Some ([Cacheable, Stat ''/app/src/schema.json'', Stat ''/app/schema.json'',
              AddDependency ''/app/schema.json'', ReadFile ''/app/schema.json'',
              Done (Inl (Error ''#import statement must specify a quoted file path''))], None)
   \<and> scanLine (''#import "a.graphql'' @ [CHR 0x27]) = Inr (Some ''a.graphql'')\<close>
  by code_simp

text \<open>
  C3, as stated, fails for the directives of imported files: \<open>loader.context\<close> is the
  base of every resolution. In the example the file \<open>/app/src/fragments/a.graphql\<close>
  imports \<open>./b.graphql\<close>, which is resolved against \<open>/app/src\<close> and not found, though
  the resolution against the directory of the importing file succeeds.
\<close>

theorem loadSource_nested_import_counterexample:
  "loadSource 5 exampleLoader exampleLibrary importsFragmentA =
     Some ([Resolve ''/app/src'' ''./fragments/a.graphql'',
            AddDependency ''/app/src/fragments/a.graphql'',
            ReadFile ''/app/src/fragments/a.graphql'',
            Resolve ''/app/src'' ''./b.graphql''],
           Inl (Error ''Module not found''))
   \<and> fsReadFile exampleLoader ''/app/src/fragments/a.graphql'' = Inr fragmentAText
   \<and> fst (scanLines (splitLines fragmentAText)) = [''./b.graphql'']
   \<and> loaderResolve exampleLoader ''/app/src/fragments'' ''./b.graphql'' =
       Inr ''/app/src/fragments/b.graphql''"
  by code_simp

text \<open>
  C3, amended. For every import directive met during recursive resolution, in the entry
  source or in a transitively imported file, the quoted path is resolved through the
  host's \<open>resolve\<close> against \<open>loader.context\<close>, the directory of the entry file: every
  resolution of a run that ends has that base, and the run of a source that parses
  starts with the resolutions of the source's own directives, in order.
\<close>

theorem loadSource_resolves_against_loader_context:
  assumes "loadSource n lc lib source = Some (events, r)"
  shows "(\<forall>b p. Resolve b p \<in> set events \<longrightarrow> b = loaderContext lc)
    \<and> (\<forall>document. graphqlParse lib source = Inr document \<longrightarrow>
         take (length (fst (scanLines (splitLines source)))) events =
         map (Resolve (loaderContext lc)) (fst (scanLines (splitLines source))))"
proof (intro conjI allI impI)
  fix b p assume "Resolve b p \<in> set events"
  from loadSource_events [OF assms this] show "b = loaderContext lc" by auto
next
  fix document assume "graphqlParse lib source = Inr document"
  with assms show "take (length (fst (scanLines (splitLines source)))) events =
      map (Resolve (loaderContext lc)) (fst (scanLines (splitLines source)))"
    by (rule loadSource_directives)
qed

lemma example_nested_load:
  "loadSource 5 exampleLoader exampleLibrary importsFragmentA =
     Some ([Resolve ''/app/src'' ''./fragments/a.graphql'',
            AddDependency ''/app/src/fragments/a.graphql'',
            ReadFile ''/app/src/fragments/a.graphql'',
            Resolve ''/app/src'' ''./b.graphql''],
           Inl (Error ''Module not found''))"
  by code_simp

theorem loadSource_resolves_against_loader_context_witness:
  "loadSource 5 exampleLoader exampleLibrary importsFragmentA \<noteq> None
   \<and> Resolve ''/app/src'' ''./b.graphql''
       \<in> set (fst (the (loadSource 5 exampleLoader exampleLibrary importsFragmentA)))
   \<and> ''/app/src'' = loaderContext exampleLoader"
proof -
  have m: "Resolve ''/app/src'' ''./b.graphql''
      \<in> set [Resolve ''/app/src'' ''./fragments/a.graphql'',
            AddDependency ''/app/src/fragments/a.graphql'',
            ReadFile ''/app/src/fragments/a.graphql'',
            Resolve ''/app/src'' ''./b.graphql'']" by simp
  from loadSource_resolves_against_loader_context [OF example_nested_load] m
  have "''/app/src'' = loaderContext exampleLoader" by blast
  with m show ?thesis by (simp add: example_nested_load)
qed

text \<open>
  C8. \<open>findSchemaFile\<close> examines the starting directory and then each successive parent
  (one \<open>stat\<close> of the schema's name in each), and returns the path of the file in the
  first directory that holds a regular file of that name; it fails if and only if the
  root is reached with no match, with an error whose message contains the schema's name
  and the starting directory. (\<open>dirname\<close> is a parameter: the search ends when the
  chain of parents reaches a root, a directory that is its own parent, or a match.)
\<close>

theorem findSchemaFile_searches_upwards:
  "findSchemaFile n lc lib context_dir schemaPath context_dir =
     schemaSearch n lc lib context_dir schemaPath
   \<and> (reachesRoot (pathDirname lib) n context_dir \<longrightarrow>
        (\<exists>events r. findSchemaFile n lc lib context_dir schemaPath context_dir = Some (events, r)
           \<and> ((\<exists>e. r = Inl e) \<longleftrightarrow>
               find (holdsSchemaFile lc lib schemaPath)
                 (ancestorDirs (pathDirname lib) n context_dir) = None)))
   \<and> (\<exists>before between after.
        SchemaNotFound schemaPath context_dir =
          Error (before @ schemaPath @ between @ context_dir @ after))"
proof (intro conjI impI)
  show eq: "findSchemaFile n lc lib context_dir schemaPath context_dir =
     schemaSearch n lc lib context_dir schemaPath"
    by (simp only: schemaSearch_def findSchemaFile_general)
  show "\<exists>before between after.
        SchemaNotFound schemaPath context_dir =
          Error (before @ schemaPath @ between @ context_dir @ after)"
    unfolding SchemaNotFound_def by (metis append.assoc)
  assume "reachesRoot (pathDirname lib) n context_dir"
  then show "\<exists>events r. findSchemaFile n lc lib context_dir schemaPath context_dir = Some (events, r)
           \<and> ((\<exists>e. r = Inl e) \<longleftrightarrow>
               find (holdsSchemaFile lc lib schemaPath)
                 (ancestorDirs (pathDirname lib) n context_dir) = None)"
    unfolding eq schemaSearch_def Let_def by (auto split: option.splits)
qed

theorem findSchemaFile_searches_upwards_witness:
  "reachesRoot (pathDirname exampleLibrary) 5 ''/app/src''
   \<and> ancestorDirs (pathDirname exampleLibrary) 5 ''/app/src'' = [''/app/src'', ''/app'', ''/'']
   \<and> findSchemaFile 5 exampleLoader exampleLibrary ''/app/src'' ''schema.json'' ''/app/src'' =
       Some ([Stat ''/app/src/schema.json'', Stat ''/app/schema.json''], Inr ''/app/schema.json'')
   \<and> findSchemaFile 5 exampleLoader exampleLibrary ''/app/src'' ''missing.json'' ''/app/src'' =
       Some ([Stat ''/app/src/missing.json'', Stat ''/app/missing.json'', Stat ''/missing.json''],
             Inl (SchemaNotFound ''missing.json'' ''/app/src''))"
proof -
  have r: "reachesRoot (pathDirname exampleLibrary) 5 ''/app/src''" by code_simp
  have a: "ancestorDirs (pathDirname exampleLibrary) 5 ''/app/src'' = [''/app/src'', ''/app'', ''/'']"
    by code_simp
  have s1: "schemaSearch 5 exampleLoader exampleLibrary ''/app/src'' ''schema.json'' =
      Some ([Stat ''/app/src/schema.json'', Stat ''/app/schema.json''], Inr ''/app/schema.json'')"
    by code_simp
  have s2: "schemaSearch 5 exampleLoader exampleLibrary ''/app/src'' ''missing.json'' =
      Some ([Stat ''/app/src/missing.json'', Stat ''/app/missing.json'', Stat ''/missing.json''],
            Inl (SchemaNotFound ''missing.json'' ''/app/src''))"
    by code_simp
  from findSchemaFile_searches_upwards [of 5 exampleLoader exampleLibrary "''/app/src''" "''schema.json''"]
    findSchemaFile_searches_upwards [of 5 exampleLoader exampleLibrary "''/app/src''" "''missing.json''"]
    r a s1 s2
  show ?thesis by simp
qed

text \<open>
  C10. When the options set \<open>validate\<close> and give no schema (none, or the empty
  string), the run of the loader (on a host that supplies the asynchronous callback) is
  \<open>cacheable()\<close> followed by \<open>done\<close> with the error "schema option must be passed if
  validate is true": no file is examined or read and no import is resolved.
\<close>

theorem loader_validate_without_schema:
  assumes "asyncCallback this" and "optValidate (loaderOptions this)"
    and "optSchema (loaderOptions this) = None \<or> optSchema (loaderOptions this) = Some []"
  shows "loader fuel this lib source =
    Some ([Cacheable, Done (Inl (Error ''schema option must be passed if validate is true''))], None)"
  using assms by (auto simp: loader_def loadOptions_def MissingSchemaOption_def Let_def)

theorem loader_validate_without_schema_witness:
  "asyncCallback exampleLoaderWithoutSchema
   \<and> optValidate (loaderOptions exampleLoaderWithoutSchema)
   \<and> optSchema (loaderOptions exampleLoaderWithoutSchema) = None
   \<and> loader 5 exampleLoaderWithoutSchema exampleLibrary importsFragmentA =
       Some ([Cacheable,
              Done (Inl (Error ''schema option must be passed if validate is true''))], None)"
proof -
  have a: "asyncCallback exampleLoaderWithoutSchema"
    and v: "optValidate (loaderOptions exampleLoaderWithoutSchema)"
    and s: "optSchema (loaderOptions exampleLoaderWithoutSchema) = None"
    by (simp_all add: exampleLoaderWithoutSchema_def exampleLoader_def)
  from loader_validate_without_schema [OF a v disjI1 [OF s]] a v s show ?thesis by simp
qed

text \<open>
  C9. When validation is configured (the options were loaded with a schema) and the
  source was loaded, every error the validator returns is passed to \<open>emitError\<close>, one
  call for each in their order, and then \<open>done\<close> is called with no error and the
  serialized payload: the reports of the run to its host are exactly these, whatever the
  validator returned.
\<close>

theorem loader_reports_validation_errors_and_continues:
  assumes "asyncCallback this"
    and "loadOptions fuel this lib = Some (events, Inr options)"
    and "optionsSchema options = Some sch"
    and "loadSource fuel this lib source = Some (events', Inr loaded)"
  shows "\<exists>trace.
      loader fuel this lib source = Some (trace, None)
    \<and> trace = Cacheable # events @ events'
         @ map EmitError (graphqlValidate lib sch (processDocument options loaded))
         @ [Done (Inr (''module.exports = '' @
              (if optionsOutput options = OutputDocument
               then stringifyDocument lib (processDocument options loaded)
               else stringifyString lib (graphqlPrint lib (processDocument options loaded)))))]
    \<and> filter isReport trace =
         map EmitError (graphqlValidate lib sch (processDocument options loaded))
         @ [Done (Inr (''module.exports = '' @
              (if optionsOutput options = OutputDocument
               then stringifyDocument lib (processDocument options loaded)
               else stringifyString lib (graphqlPrint lib (processDocument options loaded)))))]"
proof -
  have 1: "filter isReport events = []"
    using loadOptions_events [OF assms(2)] by (auto simp: filter_empty_conv)
  have 2: "filter isReport events' = []"
    using loadSource_events [OF assms(4)] by (fastforce simp: filter_empty_conv)
  have 3: "\<And>errs. filter isReport (map EmitError errs) = map EmitError errs"
    by (simp add: filter_map o_def)
  from assms 1 2 3 show ?thesis
    by (simp add: loader_def Let_def del: loadSource.simps)
qed

lemma example_loadOptions:
  "loadOptions 5 exampleLoader exampleLibrary =
     Some ([Stat ''/app/src/schema.json'', Stat ''/app/schema.json'',
            AddDependency ''/app/schema.json'', ReadFile ''/app/schema.json''],
           Inr \<lparr>optionsSchema = Some ''{}'', optionsOutput = OutputString,
                 optionsRemoveUnusedFragments = True\<rparr>)"
  by code_simp

lemma example_plain_load:
  "loadSource 5 exampleLoader exampleLibrary plainQuery =
     Some ([], Inr \<lparr>loc = Some (Location 0 14), definitions =
          [OperationDefinition (Some (Location 0 14)) (Some ''Q'')
             (SelectionSet (Some (Location 8 14)) [Field (Some (Location 10 12)) ''id'' None])]\<rparr>)"
  by code_simp

theorem loader_reports_validation_errors_and_continues_witness:
  \<open>asyncCallback exampleLoader
   \<and> loader 5 exampleLoader exampleLibrary plainQuery =
       Some ([Cacheable, Stat ''/app/src/schema.json'', Stat ''/app/schema.json'',
              AddDependency ''/app/schema.json'', ReadFile ''/app/schema.json'',
              EmitError (Error ''Unknown type T''), EmitError (Error ''Unknown field id''),
              Done (Inr ''module.exports = "query "'')], None)\<close>
proof -
  have a: "asyncCallback exampleLoader" by (simp add: exampleLoader_def)
  have s: "optionsSchema \<lparr>optionsSchema = Some ''{}'', optionsOutput = OutputString,
                 optionsRemoveUnusedFragments = True\<rparr> = Some ''{}''" by simp
  from loader_reports_validation_errors_and_continues
    [OF a example_loadOptions s example_plain_load]
  obtain trace where t: "loader 5 exampleLoader exampleLibrary plainQuery = Some (trace, None)"
    and e: "trace = Cacheable # [Stat ''/app/src/schema.json'', Stat ''/app/schema.json'',
            AddDependency ''/app/schema.json'', ReadFile ''/app/schema.json''] @ []
         @ map EmitError (graphqlValidate exampleLibrary ''{}'' (processDocument \<lparr>optionsSchema = Some ''{}'', optionsOutput = OutputString,
                 optionsRemoveUnusedFragments = True\<rparr> \<lparr>loc = Some (Location 0 14), definitions =
          [OperationDefinition (Some (Location 0 14)) (Some ''Q'')
             (SelectionSet (Some (Location 8 14)) [Field (Some (Location 10 12)) ''id'' None])]\<rparr>))
         @ [Done (Inr (''module.exports = '' @
              (if optionsOutput \<lparr>optionsSchema = Some ''{}'', optionsOutput = OutputString,
                 optionsRemoveUnusedFragments = True\<rparr> = OutputDocument
               then stringifyDocument exampleLibrary (processDocument \<lparr>optionsSchema = Some ''{}'', optionsOutput = OutputString,
                 optionsRemoveUnusedFragments = True\<rparr> \<lparr>loc = Some (Location 0 14), definitions =
          [OperationDefinition (Some (Location 0 14)) (Some ''Q'')
             (SelectionSet (Some (Location 8 14)) [Field (Some (Location 10 12)) ''id'' None])]\<rparr>)
               else stringifyString exampleLibrary (graphqlPrint exampleLibrary (processDocument \<lparr>optionsSchema = Some ''{}'', optionsOutput = OutputString,
                 optionsRemoveUnusedFragments = True\<rparr> \<lparr>loc = Some (Location 0 14), definitions =
          [OperationDefinition (Some (Location 0 14)) (Some ''Q'')
             (SelectionSet (Some (Location 8 14)) [Field (Some (Location 10 12)) ''id'' None])]\<rparr>)))))]"
    by blast
  have \<open>trace = [Cacheable, Stat ''/app/src/schema.json'', Stat ''/app/schema.json'',
              AddDependency ''/app/schema.json'', ReadFile ''/app/schema.json'',
              EmitError (Error ''Unknown type T''), EmitError (Error ''Unknown field id''),
              Done (Inr ''module.exports = "query "'')]\<close>
    unfolding e
    by (simp add: exampleLibrary_def processDocument_def removeDuplicateFragments_def
        stripLocations_def removeUnusedFragments.simps sweep_def Let_def)
  with t a show ?thesis by simp
qed

end
